theory Spec2Isabelle
  imports Complex_Main "HOL-Library.Sublist"
begin

section \<open>JavaScript values and string primitives\<close>

text \<open>
  Values produced by the runtime's \<^verbatim>\<open>JSON.parse\<close>. Numbers are kept as exact rationals
  (the decimal literal of the wire format); an object is its list of members, looked up
  with \<open>map_of\<close>.
\<close>

datatype json =
    JNull
  | JBool bool
  | JNum rat
  | JStr string
  | JArr "json list"
  | JObj "(string \<times> json) list"

text \<open>JavaScript truthiness of a parsed value (\<^verbatim>\<open>a && b\<close>, \<^verbatim>\<open>!a\<close>, \<^verbatim>\<open>a ? x : y\<close>).\<close>

fun truthy :: "json \<Rightarrow> bool" where
  "truthy JNull = False"
| "truthy (JBool b) = b"
| "truthy (JNum q) = (q \<noteq> 0)"
| "truthy (JStr s) = (s \<noteq> [])"
| "truthy (JArr xs) = True"
| "truthy (JObj kvs) = True"

text \<open>
  \<^verbatim>\<open>text.indexOf(p, start)\<close>: the least position \<open>\<ge> start\<close> where \<open>p\<close> occurs,
  \<open>None\<close> standing for \<open>-1\<close>.
\<close>

fun indexOfFrom :: "string \<Rightarrow> string \<Rightarrow> nat \<Rightarrow> nat option" where
  "indexOfFrom p [] i = (if p = [] then Some i else None)"
| "indexOfFrom p (c # cs) i = (if prefix p (c # cs) then Some i else indexOfFrom p cs (Suc i))"

definition indexOf :: "string \<Rightarrow> string \<Rightarrow> nat \<Rightarrow> nat option" where
  "indexOf text p start = indexOfFrom p (drop start text) (min start (length text))"

text \<open>\<^verbatim>\<open>text.substring(a, b)\<close> for \<open>a \<le> b\<close>, and \<^verbatim>\<open>text.substring(a)\<close> as \<open>drop a text\<close>.\<close>

definition substring :: "string \<Rightarrow> nat \<Rightarrow> nat \<Rightarrow> string" where
  "substring text a b = take (b - a) (drop a text)"

section \<open>Byte event parser (src/event-parser.ts)\<close>

datatype KiroStreamEvent =
    Content json
  | ToolUse json json string "json option"
  | ToolUseInput string
  | ToolUseStop json
  | ContextUsage json

text \<open>
  \<open>findJsonEnd\<close>: the \<^verbatim>\<open>for\<close> loop over \<open>i\<close>, run on the text from position \<open>i\<close> on.
  The brace counter is a JavaScript number and may go below zero.
\<close>

fun findJsonEndLoop :: "string \<Rightarrow> nat \<Rightarrow> int \<Rightarrow> bool \<Rightarrow> bool \<Rightarrow> nat option" where
  "findJsonEndLoop [] i braceCount inString escapeNext = None"
| "findJsonEndLoop (c # cs) i braceCount inString escapeNext =
     (if escapeNext then findJsonEndLoop cs (Suc i) braceCount inString False
      else if c = CHR 0x5C then findJsonEndLoop cs (Suc i) braceCount inString True
      else if c = CHR 0x22 then findJsonEndLoop cs (Suc i) braceCount (\<not> inString) False
      else if \<not> inString then
        (if c = CHR ''{'' then findJsonEndLoop cs (Suc i) (braceCount + 1) inString False
         else if c = CHR ''}'' then
           (if braceCount - 1 = 0 then Some i
            else findJsonEndLoop cs (Suc i) (braceCount - 1) inString False)
         else findJsonEndLoop cs (Suc i) braceCount inString False)
      else findJsonEndLoop cs (Suc i) braceCount inString False)"

definition findJsonEnd :: "string \<Rightarrow> nat \<Rightarrow> nat option" where
  "findJsonEnd text start = findJsonEndLoop (drop start text) start 0 False False"

text \<open>
  \<open>parseKiroEvent\<close>. The parameter \<open>stringify\<close> is the runtime's \<^verbatim>\<open>JSON.stringify\<close>.
  A parsed value that is not an object has none of the members and gives no event.
\<close>

fun parseKiroEvent :: "(json \<Rightarrow> string) \<Rightarrow> json \<Rightarrow> KiroStreamEvent option" where
  "parseKiroEvent stringify (JObj parsed) =
     (let content = map_of parsed ''content'';
          name = map_of parsed ''name'';
          toolUseId = map_of parsed ''toolUseId'';
          input = map_of parsed ''input'';
          stop = map_of parsed ''stop'';
          contextUsagePercentage = map_of parsed ''contextUsagePercentage''
      in if content \<noteq> None then Some (Content (the content))
         else if (case name of Some n \<Rightarrow> truthy n | None \<Rightarrow> False)
               \<and> (case toolUseId of Some t \<Rightarrow> truthy t | None \<Rightarrow> False) then
           Some (ToolUse (the name) (the toolUseId)
                  (case input of
                     Some (JStr s) \<Rightarrow> s
                   | Some v \<Rightarrow> (if truthy v then stringify v else [])
                   | None \<Rightarrow> [])
                  stop)
         else if input \<noteq> None \<and> \<not> (case name of Some n \<Rightarrow> truthy n | None \<Rightarrow> False) then
           Some (ToolUseInput (case the input of JStr s \<Rightarrow> s | v \<Rightarrow> stringify v))
         else if stop \<noteq> None \<and> contextUsagePercentage = None then Some (ToolUseStop (the stop))
         else if contextUsagePercentage \<noteq> None then Some (ContextUsage (the contextUsagePercentage))
         else None)"
| "parseKiroEvent stringify v = None"

definition patterns :: "string list" where
  \<open>patterns = [''{"content":'', ''{"name":'', ''{"input":'', ''{"stop":'',
               ''{"contextUsagePercentage":'']\<close>

text \<open>The candidate positions of one round of the loop and their minimum.\<close>

definition candidates :: "string \<Rightarrow> nat \<Rightarrow> nat list" where
  "candidates remaining searchStart =
     List.map_filter (\<lambda>p. indexOf remaining p searchStart) patterns"

definition firstAnchor :: "string \<Rightarrow> nat \<Rightarrow> nat option" where
  "firstAnchor remaining searchStart =
     (let cands = candidates remaining searchStart
      in if cands = [] then None else Some (Min (set cands)))"

text \<open>
  One \<^verbatim>\<open>try\<close> block: \<open>jsonParse\<close> is the runtime's \<^verbatim>\<open>JSON.parse\<close>, \<open>None\<close> when it
  throws; a throw or a null event leaves the event list as it is.
\<close>

definition tryParse ::
  "(string \<Rightarrow> json option) \<Rightarrow> (json \<Rightarrow> string) \<Rightarrow> string \<Rightarrow> KiroStreamEvent list" where
  "tryParse jsonParse stringify text =
     (case jsonParse text of
        None \<Rightarrow> []
      | Some parsed \<Rightarrow> (case parseKiroEvent stringify parsed of None \<Rightarrow> [] | Some e \<Rightarrow> [e]))"

lemma indexOfFrom_ge: "indexOfFrom p s i = Some j \<Longrightarrow> i \<le> j"
  by (induction s arbitrary: i) (auto split: if_splits dest: Suc_leD)

lemma indexOf_ge:
  assumes "p \<noteq> []" and "indexOf text p start = Some j"
  shows "start \<le> j"
proof (cases "start \<le> length text")
  case True
  with assms(2) show ?thesis
    unfolding indexOf_def using indexOfFrom_ge [of p "drop start text" start j] by (simp add: min_def)
next
  case False
  with assms show ?thesis by (simp add: indexOf_def)
qed

lemma indexOfFrom_bound: "p \<noteq> [] \<Longrightarrow> indexOfFrom p s i = Some j \<Longrightarrow> j < i + length s"
  by (induction s arbitrary: i) (fastforce split: if_splits)+

lemma findJsonEndLoop_ge: "findJsonEndLoop s i bc ins esc = Some e \<Longrightarrow> i \<le> e"
proof (induction s arbitrary: i bc ins esc)
  case Nil
  then show ?case by simp
next
  case (Cons c cs)
  from Cons.prems show ?case
    by (auto split: if_splits dest!: Cons.IH)
qed

lemma findJsonEnd_ge: "findJsonEnd text start = Some e \<Longrightarrow> start \<le> e"
  unfolding findJsonEnd_def by (rule findJsonEndLoop_ge)

lemma patterns_nonempty: "p \<in> set patterns \<Longrightarrow> p \<noteq> []"
  by (auto simp: patterns_def)

lemma set_candidates:
  "set (candidates remaining searchStart) =
     {j. \<exists>p\<in>set patterns. indexOf remaining p searchStart = Some j}"
  by (force simp: candidates_def List.map_filter_def)

lemma firstAnchor_ge:
  assumes "firstAnchor remaining searchStart = Some j"
  shows "searchStart \<le> j"
proof -
  let ?c = "candidates remaining searchStart"
  from assms have ne: "?c \<noteq> []" and j: "j = Min (set ?c)"
    by (auto simp: firstAnchor_def Let_def split: if_splits)
  then have "j \<in> set ?c" using Min_in [of "set ?c"] by simp
  then obtain p where "p \<in> set patterns" "indexOf remaining p searchStart = Some j"
    by (auto simp: set_candidates)
  then show ?thesis using indexOf_ge patterns_nonempty by blast
qed

text \<open>
  The \<^verbatim>\<open>while (true)\<close> loop of \<open>parseKiroEvents\<close>; the buffer under scan only changes
  on exit, so the loop state is \<open>searchStart\<close> and the events. It returns the values of
  \<open>events\<close>, \<open>remaining\<close>, \<open>searchStart\<close> and \<open>incompleteJson\<close> at exit.
\<close>

function parseLoop ::
  "(string \<Rightarrow> json option) \<Rightarrow> (json \<Rightarrow> string) \<Rightarrow> string \<Rightarrow> nat \<Rightarrow> KiroStreamEvent list
     \<Rightarrow> KiroStreamEvent list \<times> string \<times> nat \<times> bool" where
  "parseLoop jsonParse stringify remaining searchStart events =
     (case firstAnchor remaining searchStart of
        None \<Rightarrow> (events, remaining, searchStart, False)
      | Some jsonStart \<Rightarrow>
          (case findJsonEnd remaining jsonStart of
             None \<Rightarrow> (events, drop jsonStart remaining, searchStart, True)
           | Some jsonEnd \<Rightarrow>
               if jsonEnd + 1 \<ge> length remaining
               then (events @ tryParse jsonParse stringify (substring remaining jsonStart (jsonEnd + 1)),
                     [], jsonEnd + 1, False)
               else parseLoop jsonParse stringify remaining (jsonEnd + 1)
                      (events @ tryParse jsonParse stringify (substring remaining jsonStart (jsonEnd + 1)))))"
  by pat_completeness auto
termination
proof (relation "measure (\<lambda>(jp, st, remaining, searchStart, events). length remaining - searchStart)")
  show "wf (measure (\<lambda>(jp, st, remaining, searchStart, events). length remaining - searchStart))"
    by simp
next
  fix jsonParse :: "string \<Rightarrow> json option" and stringify :: "json \<Rightarrow> string"
    and remaining :: string and searchStart :: nat and events :: "KiroStreamEvent list"
    and jsonStart jsonEnd :: nat
  assume b: "firstAnchor remaining searchStart = Some jsonStart"
    and c: "findJsonEnd remaining jsonStart = Some jsonEnd"
    and d: "\<not> length remaining \<le> jsonEnd + 1"
  from b have 1: "searchStart \<le> jsonStart" by (rule firstAnchor_ge)
  from c have "jsonStart \<le> jsonEnd" by (rule findJsonEnd_ge)
  with 1 d show "((jsonParse, stringify, remaining, jsonEnd + 1,
                   events @ tryParse jsonParse stringify (substring remaining jsonStart (jsonEnd + 1))),
                  jsonParse, stringify, remaining, searchStart, events)
                 \<in> measure (\<lambda>(jp, st, remaining, searchStart, events). length remaining - searchStart)"
    by simp
qed

definition parseKiroEvents ::
  "(string \<Rightarrow> json option) \<Rightarrow> (json \<Rightarrow> string) \<Rightarrow> string \<Rightarrow> KiroStreamEvent list \<times> string" where
  "parseKiroEvents jsonParse stringify buffer =
     (case parseLoop jsonParse stringify buffer 0 [] of
        (events, remaining, searchStart, incompleteJson) \<Rightarrow>
          (events,
           if \<not> incompleteJson \<and> searchStart > 0 \<and> length remaining > 0
           then drop searchStart remaining else remaining))"



declare parseLoop.simps [simp del]

text \<open>The last statement of \<open>parseKiroEvents\<close>, applied to the state at loop exit.\<close>

definition finish :: "KiroStreamEvent list \<times> string \<times> nat \<times> bool \<Rightarrow> KiroStreamEvent list \<times> string" where
  "finish r = (case r of (events, remaining, searchStart, incompleteJson) \<Rightarrow>
          (events,
           if \<not> incompleteJson \<and> searchStart > 0 \<and> length remaining > 0
           then drop searchStart remaining else remaining))"

lemma parseKiroEvents_finish:
  "parseKiroEvents jp st buffer = finish (parseLoop jp st buffer 0 [])"
  by (simp add: parseKiroEvents_def finish_def)

lemma finish_simps:
  "finish (ev, r, k, True) = (ev, r)"
  "finish (ev, r, k, False) = (ev, drop k r)"
  by (auto simp: finish_def)

text \<open>Some pattern occurs at position \<open>i\<close> of the text.\<close>

definition anchorAt :: "string \<Rightarrow> nat \<Rightarrow> bool" where
  "anchorAt text i = (\<exists>p\<in>set patterns. prefix p (drop i text))"

lemma indexOfFrom_Some_iff:
  "indexOfFrom p s i = Some j \<longleftrightarrow>
     i \<le> j \<and> j \<le> i + length s \<and> prefix p (drop (j - i) s) \<and> (\<forall>m. m < j - i \<longrightarrow> \<not> prefix p (drop m s))"
proof (induction s arbitrary: i)
  case Nil
  then show ?case by auto
next
  case (Cons c cs)
  show ?case
  proof (cases "prefix p (c # cs)")
    case True
    have "j = i" if "i \<le> j" "\<forall>m. m < j - i \<longrightarrow> \<not> prefix p (drop m (c # cs))"
    proof (rule ccontr)
      assume "j \<noteq> i"
      with that(1) have "0 < j - i" by simp
      with that(2) have "\<not> prefix p (drop 0 (c # cs))" by blast
      with True show False by simp
    qed
    with True show ?thesis by auto
  next
    case False
    have "indexOfFrom p (c # cs) i = Some j \<longleftrightarrow> indexOfFrom p cs (Suc i) = Some j"
      using False by simp
    also have "\<dots> \<longleftrightarrow> Suc i \<le> j \<and> j \<le> Suc i + length cs \<and> prefix p (drop (j - Suc i) cs)
        \<and> (\<forall>m. m < j - Suc i \<longrightarrow> \<not> prefix p (drop m cs))"
      by (rule Cons.IH)
    also have "\<dots> \<longleftrightarrow> i \<le> j \<and> j \<le> i + length (c # cs) \<and> prefix p (drop (j - i) (c # cs))
        \<and> (\<forall>m. m < j - i \<longrightarrow> \<not> prefix p (drop m (c # cs)))"
    proof (cases "j \<le> i")
      case True
      then show ?thesis using False by (cases "j = i") auto
    next
      case f: False
      then obtain d where d: "j - i = Suc d" "j - Suc i = d" by (cases "j - i") auto
      have "(\<forall>m. m < Suc d \<longrightarrow> \<not> prefix p (drop m (c # cs))) \<longleftrightarrow> (\<forall>m. m < d \<longrightarrow> \<not> prefix p (drop m cs))"
      proof
        assume a: "\<forall>m. m < Suc d \<longrightarrow> \<not> prefix p (drop m (c # cs))"
        show "\<forall>m. m < d \<longrightarrow> \<not> prefix p (drop m cs)"
        proof (intro allI impI)
          fix m assume "m < d"
          then have "Suc m < Suc d" by simp
          with a have "\<not> prefix p (drop (Suc m) (c # cs))" by blast
          then show "\<not> prefix p (drop m cs)" by simp
        qed
      next
        assume a: "\<forall>m. m < d \<longrightarrow> \<not> prefix p (drop m cs)"
        show "\<forall>m. m < Suc d \<longrightarrow> \<not> prefix p (drop m (c # cs))"
        proof (intro allI impI)
          fix m assume "m < Suc d"
          then show "\<not> prefix p (drop m (c # cs))" using a False by (cases m) auto
        qed
      qed
      then show ?thesis using f d by auto
    qed
    finally show ?thesis .
  qed
qed

lemma indexOf_Some_iff:
  assumes "p \<noteq> []"
  shows "indexOf text p k = Some j \<longleftrightarrow>
     k \<le> j \<and> prefix p (drop j text) \<and> (\<forall>m. k \<le> m \<and> m < j \<longrightarrow> \<not> prefix p (drop m text))"
proof (cases "k \<le> length text")
  case True
  have "indexOf text p k = Some j \<longleftrightarrow>
      k \<le> j \<and> j \<le> k + length (drop k text) \<and> prefix p (drop (j - k) (drop k text))
        \<and> (\<forall>m. m < j - k \<longrightarrow> \<not> prefix p (drop m (drop k text)))"
    using True by (simp add: indexOf_def indexOfFrom_Some_iff min_def)
  also have "\<dots> \<longleftrightarrow> k \<le> j \<and> prefix p (drop j text) \<and> (\<forall>m. k \<le> m \<and> m < j \<longrightarrow> \<not> prefix p (drop m text))"
  proof (cases "k \<le> j")
    case False
    then show ?thesis by simp
  next
    case kj: True
    have 1: "(\<forall>m. m < j - k \<longrightarrow> \<not> prefix p (drop m (drop k text))) \<longleftrightarrow>
       (\<forall>m. k \<le> m \<and> m < j \<longrightarrow> \<not> prefix p (drop m text))"
    proof
      assume a: "\<forall>m. m < j - k \<longrightarrow> \<not> prefix p (drop m (drop k text))"
      show "\<forall>m. k \<le> m \<and> m < j \<longrightarrow> \<not> prefix p (drop m text)"
      proof (intro allI impI)
        fix m assume m: "k \<le> m \<and> m < j"
        then have "m - k < j - k" by auto
        with a have "\<not> prefix p (drop (m - k) (drop k text))" by blast
        then show "\<not> prefix p (drop m text)" using m by simp
      qed
    next
      assume a: "\<forall>m. k \<le> m \<and> m < j \<longrightarrow> \<not> prefix p (drop m text)"
      show "\<forall>m. m < j - k \<longrightarrow> \<not> prefix p (drop m (drop k text))"
      proof (intro allI impI)
        fix m assume "m < j - k"
        then have "k \<le> m + k \<and> m + k < j" by auto
        with a have "\<not> prefix p (drop (m + k) text)" by blast
        then show "\<not> prefix p (drop m (drop k text))" by (simp add: add.commute)
      qed
    qed
    have 2: "prefix p (drop j text) \<Longrightarrow> j \<le> length text"
      using assms by (cases "j \<le> length text") auto
    show ?thesis using kj True 1 2 by auto
  qed
  finally show ?thesis .
next
  case False
  then have "indexOf text p k = None" using assms by (simp add: indexOf_def)
  moreover have "\<not> (k \<le> j \<and> prefix p (drop j text))" using False assms by auto
  ultimately show ?thesis by auto
qed

lemma firstAnchor_None_iff:
  "firstAnchor text k = None \<longleftrightarrow> (\<forall>i\<ge>k. \<not> anchorAt text i)"
proof -
  have "firstAnchor text k = None \<longleftrightarrow> set (candidates text k) = {}"
    by (simp add: firstAnchor_def Let_def)
  also have "\<dots> \<longleftrightarrow> (\<forall>p\<in>set patterns. indexOf text p k = None)"
    unfolding set_candidates by (simp add: set_eq_iff) (metis not_Some_eq)
  also have "\<dots> \<longleftrightarrow> (\<forall>i\<ge>k. \<not> anchorAt text i)"
  proof
    assume a: "\<forall>p\<in>set patterns. indexOf text p k = None"
    show "\<forall>i\<ge>k. \<not> anchorAt text i"
    proof (intro allI impI notI)
      fix i assume "k \<le> i" "anchorAt text i"
      then obtain p where p: "p \<in> set patterns" "prefix p (drop i text)" by (auto simp: anchorAt_def)
      define j where "j = (LEAST m. k \<le> m \<and> prefix p (drop m text))"
      have "k \<le> j \<and> prefix p (drop j text)"
        unfolding j_def using \<open>k \<le> i\<close> p(2) by (intro LeastI [of "\<lambda>m. k \<le> m \<and> prefix p (drop m text)" i]) simp
      moreover have "\<forall>m. k \<le> m \<and> m < j \<longrightarrow> \<not> prefix p (drop m text)"
        unfolding j_def using not_less_Least by blast
      ultimately have "indexOf text p k = Some j"
        using indexOf_Some_iff [OF patterns_nonempty [OF p(1)]] by blast
      with a p(1) show False by simp
    qed
  next
    assume a: "\<forall>i\<ge>k. \<not> anchorAt text i"
    show "\<forall>p\<in>set patterns. indexOf text p k = None"
    proof
      fix p assume p: "p \<in> set patterns"
      show "indexOf text p k = None"
      proof (cases "indexOf text p k")
        case (Some j)
        then have "k \<le> j" "prefix p (drop j text)"
          using indexOf_Some_iff [OF patterns_nonempty [OF p]] by blast+
        with a p show ?thesis by (auto simp: anchorAt_def)
      qed simp
    qed
  qed
  finally show ?thesis .
qed

lemma firstAnchor_Some_iff:
  "firstAnchor text k = Some j \<longleftrightarrow>
     k \<le> j \<and> anchorAt text j \<and> (\<forall>m. k \<le> m \<and> m < j \<longrightarrow> \<not> anchorAt text m)"
proof
  assume a: "firstAnchor text k = Some j"
  let ?c = "candidates text k"
  from a have ne: "?c \<noteq> []" and j: "j = Min (set ?c)"
    by (auto simp: firstAnchor_def Let_def split: if_splits)
  then have "j \<in> set ?c" using Min_in [of "set ?c"] by simp
  then obtain p where p: "p \<in> set patterns" "indexOf text p k = Some j"
    by (auto simp: set_candidates)
  then have 1: "k \<le> j" "prefix p (drop j text)"
    using indexOf_Some_iff [OF patterns_nonempty [OF p(1)]] by blast+
  have "\<not> anchorAt text m" if m: "k \<le> m \<and> m < j" for m
  proof
    assume "anchorAt text m"
    then obtain q where q: "q \<in> set patterns" "prefix q (drop m text)" by (auto simp: anchorAt_def)
    define i where "i = (LEAST n. k \<le> n \<and> prefix q (drop n text))"
    have "k \<le> i \<and> prefix q (drop i text)"
      unfolding i_def using m q(2) by (intro LeastI [of "\<lambda>n. k \<le> n \<and> prefix q (drop n text)" m]) simp
    moreover have "\<forall>n. k \<le> n \<and> n < i \<longrightarrow> \<not> prefix q (drop n text)"
      unfolding i_def using not_less_Least by blast
    ultimately have "indexOf text q k = Some i"
      using indexOf_Some_iff [OF patterns_nonempty [OF q(1)]] by blast
    with q(1) have "i \<in> set ?c" by (auto simp: set_candidates)
    then have "j \<le> i" unfolding j by simp
    moreover have "i \<le> m" unfolding i_def using m q(2) by (intro Least_le) simp
    ultimately show False using m by simp
  qed
  with 1 p(1) show "k \<le> j \<and> anchorAt text j \<and> (\<forall>m. k \<le> m \<and> m < j \<longrightarrow> \<not> anchorAt text m)"
    by (auto simp: anchorAt_def)
next
  assume a: "k \<le> j \<and> anchorAt text j \<and> (\<forall>m. k \<le> m \<and> m < j \<longrightarrow> \<not> anchorAt text m)"
  then have "firstAnchor text k \<noteq> None" by (auto simp: firstAnchor_None_iff)
  then obtain i where i: "firstAnchor text k = Some i" by auto
  let ?c = "candidates text k"
  from i have ne: "?c \<noteq> []" and im: "i = Min (set ?c)"
    by (auto simp: firstAnchor_def Let_def split: if_splits)
  then have "i \<in> set ?c" using Min_in [of "set ?c"] by simp
  then obtain p where p: "p \<in> set patterns" "indexOf text p k = Some i"
    by (auto simp: set_candidates)
  then have 1: "k \<le> i" "prefix p (drop i text)"
    using indexOf_Some_iff [OF patterns_nonempty [OF p(1)]] by blast+
  then have "anchorAt text i" using p(1) by (auto simp: anchorAt_def)
  with a 1 have "j \<le> i" by (meson not_le_imp_less)
  from a obtain q where q: "q \<in> set patterns" "prefix q (drop j text)" by (auto simp: anchorAt_def)
  define n where "n = (LEAST n. k \<le> n \<and> prefix q (drop n text))"
  have "k \<le> n \<and> prefix q (drop n text)"
    unfolding n_def using a q(2) by (intro LeastI [of "\<lambda>n. k \<le> n \<and> prefix q (drop n text)" j]) simp
  moreover have "\<forall>m. k \<le> m \<and> m < n \<longrightarrow> \<not> prefix q (drop m text)"
    unfolding n_def using not_less_Least by blast
  ultimately have "indexOf text q k = Some n"
    using indexOf_Some_iff [OF patterns_nonempty [OF q(1)]] by blast
  with q(1) have "n \<in> set ?c" by (auto simp: set_candidates)
  then have "i \<le> n" unfolding im by simp
  moreover have "n \<le> j" unfolding n_def using a q(2) by (intro Least_le) simp
  ultimately have "i = j" using \<open>j \<le> i\<close> by simp
  with i show "firstAnchor text k = Some j" by simp
qed


lemma anchorAt_shift: "anchorAt (pre @ s) (length pre + i) = anchorAt s i"
  by (simp add: anchorAt_def)

lemma firstAnchor_shift:
  "firstAnchor (pre @ s) (length pre + k) = map_option (\<lambda>j. length pre + j) (firstAnchor s k)"
proof (cases "firstAnchor s k")
  case None
  then have "\<forall>i\<ge>k. \<not> anchorAt s i" by (simp add: firstAnchor_None_iff)
  have "\<not> anchorAt (pre @ s) i" if "length pre + k \<le> i" for i
  proof -
    from that obtain d where d: "i = length pre + d" "k \<le> d"
      by (metis add_leD1 le_Suc_ex nat_add_left_cancel_le)
    with \<open>\<forall>i\<ge>k. \<not> anchorAt s i\<close> show ?thesis by (simp add: anchorAt_shift)
  qed
  then have "firstAnchor (pre @ s) (length pre + k) = None" by (simp add: firstAnchor_None_iff)
  with None show ?thesis by simp
next
  case (Some j)
  then have j: "k \<le> j" "anchorAt s j" "\<forall>m. k \<le> m \<and> m < j \<longrightarrow> \<not> anchorAt s m"
    by (auto simp: firstAnchor_Some_iff)
  have "\<not> anchorAt (pre @ s) m" if "length pre + k \<le> m \<and> m < length pre + j" for m
  proof -
    from that obtain d where d: "m = length pre + d" "k \<le> d"
      by (metis add_leD1 le_Suc_ex nat_add_left_cancel_le)
    with that j(3) show ?thesis by (simp add: anchorAt_shift)
  qed
  with j(1,2) have "firstAnchor (pre @ s) (length pre + k) = Some (length pre + j)"
    by (simp add: firstAnchor_Some_iff anchorAt_shift)
  with Some show ?thesis by simp
qed

lemma findJsonEndLoop_shift:
  "findJsonEndLoop s (k + i) bc ins esc = map_option (\<lambda>e. k + e) (findJsonEndLoop s i bc ins esc)"
proof (induction s arbitrary: i bc ins esc)
  case Nil
  then show ?case by simp
next
  case (Cons c cs)
  have *: "Suc (k + i) = k + Suc i" by simp
  show ?case unfolding findJsonEndLoop.simps * Cons.IH by simp
qed

lemma findJsonEnd_shift:
  "findJsonEnd (pre @ s) (length pre + j) = map_option (\<lambda>e. length pre + e) (findJsonEnd s j)"
  by (simp add: findJsonEnd_def findJsonEndLoop_shift)

lemma findJsonEndLoop_append:
  "findJsonEndLoop xs i bc ins esc = Some e \<Longrightarrow> findJsonEndLoop (xs @ ys) i bc ins esc = Some e"
proof (induction xs arbitrary: i bc ins esc)
  case Nil
  then show ?case by simp
next
  case (Cons c cs)
  from Cons.prems show ?case
    by (auto split: if_splits intro: Cons.IH)
qed

lemma findJsonEnd_append:
  assumes "findJsonEnd b1 j = Some e"
  shows "findJsonEnd (b1 @ b2) j = Some e"
proof (cases "j \<le> length b1")
  case True
  with assms show ?thesis by (simp add: findJsonEnd_def findJsonEndLoop_append)
next
  case False
  with assms show ?thesis by (simp add: findJsonEnd_def)
qed

lemma findJsonEndLoop_lt: "findJsonEndLoop s i bc ins esc = Some e \<Longrightarrow> e < i + length s"
proof (induction s arbitrary: i bc ins esc)
  case Nil
  then show ?case by simp
next
  case (Cons c cs)
  from Cons.prems show ?case
    by (auto split: if_splits dest!: Cons.IH)
qed

lemma findJsonEnd_lt: "findJsonEnd text j = Some e \<Longrightarrow> e < length text"
proof (cases "j \<le> length text")
  case True
  assume "findJsonEnd text j = Some e"
  then have "e < j + length (drop j text)" unfolding findJsonEnd_def by (rule findJsonEndLoop_lt)
  with True show ?thesis by simp
next
  case False
  assume "findJsonEnd text j = Some e"
  with False show ?thesis by (simp add: findJsonEnd_def)
qed

lemma substring_shift: "substring (pre @ s) (length pre + a) (length pre + b) = substring s a b"
  by (simp add: substring_def)

lemma substring_append: "b \<le> length b1 \<Longrightarrow> substring (b1 @ b2) a b = substring b1 a b"
  by (simp add: substring_def)

text \<open>Scanning from \<open>searchStart\<close> behind a prefix is scanning the rest from 0.\<close>

lemma parseLoop_shift:
  "finish (parseLoop jp st (pre @ s) (length pre + k) ev) = finish (parseLoop jp st s k ev)"
proof (induction jp st s k ev rule: parseLoop.induct)
  case (1 jp st s k ev)
  show ?case
  proof (cases "firstAnchor s k")
    case None
    then show ?thesis
      by (simp add: parseLoop.simps [of jp st s k] parseLoop.simps [of jp st "pre @ s"]
          firstAnchor_shift finish_simps)
  next
    case (Some j)
    note j = this
    show ?thesis
    proof (cases "findJsonEnd s j")
      case None
      with j show ?thesis
        by (simp add: parseLoop.simps [of jp st s k] parseLoop.simps [of jp st "pre @ s"]
            firstAnchor_shift findJsonEnd_shift finish_simps)
    next
      case (Some e)
      have sub: "substring (pre @ s) (length pre + j) (Suc (length pre + e)) = substring s j (Suc e)"
        using substring_shift [of pre s j "Suc e"] by simp
      show ?thesis
      proof (cases "e + 1 \<ge> length s")
        case True
        with j Some sub show ?thesis
          by (simp add: parseLoop.simps [of jp st s k] parseLoop.simps [of jp st "pre @ s"]
              firstAnchor_shift findJsonEnd_shift finish_simps)
      next
        case False
        have "finish (parseLoop jp st (pre @ s) (length pre + (e + 1))
                 (ev @ tryParse jp st (substring s j (e + 1)))) =
              finish (parseLoop jp st s (e + 1) (ev @ tryParse jp st (substring s j (e + 1))))"
          using "1.IH" [OF j Some] False by simp
        with j Some sub False show ?thesis
          by (simp add: parseLoop.simps [of jp st s k] parseLoop.simps [of jp st "pre @ s" "length pre + k"]
              firstAnchor_shift findJsonEnd_shift)
      qed
    qed
  qed
qed

lemma parseLoop_drop:
  assumes "k \<le> length buffer"
  shows "finish (parseLoop jp st buffer k ev) = finish (parseLoop jp st (drop k buffer) 0 ev)"
  using parseLoop_shift [of jp st "take k buffer" "drop k buffer" 0 ev] assms by simp


lemma patterns_brace: "p \<in> set patterns \<Longrightarrow> hd p = CHR ''{'' \<and> CHR ''{'' \<notin> set (tl p)"
  by (auto simp: patterns_def)

lemma anchorAt_lt: "anchorAt text j \<Longrightarrow> j < length text"
proof -
  assume "anchorAt text j"
  then obtain p where "p \<in> set patterns" "prefix p (drop j text)" by (auto simp: anchorAt_def)
  then have "drop j text \<noteq> []" using patterns_nonempty by fastforce
  then show ?thesis by simp
qed

lemma anchorAt_brace: "anchorAt text j \<Longrightarrow> text ! j = CHR ''{''"
proof -
  assume a: "anchorAt text j"
  then obtain p where p: "p \<in> set patterns" "prefix p (drop j text)" by (auto simp: anchorAt_def)
  then obtain zs where zs: "drop j text = p @ zs" by (auto simp: prefix_def)
  from p(1) have "p \<noteq> []" by (rule patterns_nonempty)
  then have "hd (drop j text) = hd p" using zs by simp
  moreover have "hd (drop j text) = text ! j" using anchorAt_lt [OF a] by (simp add: hd_drop_conv_nth)
  ultimately show ?thesis using patterns_brace [OF p(1)] by simp
qed

lemma anchorAt_append: "anchorAt b1 j \<Longrightarrow> anchorAt (b1 @ b2) j"
  by (auto simp: anchorAt_def intro: prefix_prefix)

text \<open>
  An anchor that begins before a complete anchor of the first chunk cannot reach into the
  second chunk: it would have to contain the opening brace of the later anchor.
\<close>

lemma anchorAt_before:
  assumes j: "anchorAt b1 j" and m: "m < j" and a: "anchorAt (b1 @ b2) m"
  shows "anchorAt b1 m"
proof -
  from a obtain p where p: "p \<in> set patterns" "prefix p (drop m (b1 @ b2))"
    by (auto simp: anchorAt_def)
  have jl: "j < length b1" using j by (rule anchorAt_lt)
  have "m + length p \<le> length b1"
  proof (rule ccontr)
    assume "\<not> m + length p \<le> length b1"
    with jl m have d: "0 < j - m" "j - m < length p" by auto
    from p(2) obtain zs where zs: "drop m (b1 @ b2) = p @ zs" by (auto simp: prefix_def)
    have "p ! (j - m) = (p @ zs) ! (j - m)" using d by (simp add: nth_append)
    also have "\<dots> = drop m (b1 @ b2) ! (j - m)" using zs by simp
    also have "\<dots> = (b1 @ b2) ! (m + (j - m))" using m jl by (intro nth_drop) simp
    also have "\<dots> = (b1 @ b2) ! j" using m by simp
    also have "\<dots> = b1 ! j" using jl by (simp add: nth_append)
    also have "\<dots> = CHR ''{''" using j by (rule anchorAt_brace)
    finally have "p ! (j - m) = CHR ''{''" .
    moreover have "p ! (j - m) \<in> set (tl p)"
    proof -
      from d obtain c cs where pc: "p = c # cs" by (cases p) auto
      from d obtain n where n: "j - m = Suc n" by (cases "j - m") auto
      with d pc show ?thesis by auto
    qed
    ultimately show False using patterns_brace [OF p(1)] by simp
  qed
  moreover from m jl have "drop m (b1 @ b2) = drop m b1 @ b2" by simp
  ultimately have "prefix p (drop m b1)"
    using p(2) m jl by (auto simp: prefix_append)
  with p(1) show ?thesis by (auto simp: anchorAt_def)
qed

lemma firstAnchor_append:
  assumes "firstAnchor b1 k = Some j"
  shows "firstAnchor (b1 @ b2) k = Some j"
proof -
  from assms have j: "k \<le> j" "anchorAt b1 j" "\<forall>m. k \<le> m \<and> m < j \<longrightarrow> \<not> anchorAt b1 m"
    by (auto simp: firstAnchor_Some_iff)
  have "\<not> anchorAt (b1 @ b2) m" if "k \<le> m \<and> m < j" for m
    using anchorAt_before [OF j(2), of m b2] that j(3) by blast
  with j(1) anchorAt_append [OF j(2)] show ?thesis by (simp add: firstAnchor_Some_iff)
qed

lemma firstAnchor_self:
  assumes "firstAnchor buffer k = Some j"
  shows "firstAnchor buffer j = Some j"
  using assms by (auto simp: firstAnchor_Some_iff)

lemma parseLoop_skip:
  assumes "firstAnchor buffer k = Some j"
  shows "finish (parseLoop jp st buffer k ev) = finish (parseLoop jp st buffer j ev)"
  using assms firstAnchor_self [OF assms]
  by (simp add: parseLoop.simps [of jp st buffer k] parseLoop.simps [of jp st buffer j] finish_simps
      split: option.splits)

lemma parseLoop_Nil: "finish (parseLoop jp st [] 0 ev) = (ev, [])"
proof -
  have "firstAnchor [] 0 = None" by (simp add: firstAnchor_None_iff anchorAt_def patterns_def)
  then show ?thesis by (simp add: parseLoop.simps [of jp st "[]"] finish_simps)
qed

text \<open>Chunk-boundary independence, for any position of the scan in the first chunk.\<close>

lemma parseLoop_chunks:
  "k \<le> length b1 \<Longrightarrow>
   finish (parseLoop jp st (b1 @ b2) k ev) =
     (case finish (parseLoop jp st b1 k ev) of (ev1, r1) \<Rightarrow> finish (parseLoop jp st (r1 @ b2) 0 ev1))"
proof (induction jp st b1 k ev rule: parseLoop.induct)
  case (1 jp st b1 k ev)
  show ?case
  proof (cases "firstAnchor b1 k")
    case None
    then have "finish (parseLoop jp st b1 k ev) = (ev, drop k b1)"
      by (simp add: parseLoop.simps [of jp st b1 k] finish_simps)
    moreover have "finish (parseLoop jp st (b1 @ b2) k ev) = finish (parseLoop jp st (drop k b1 @ b2) 0 ev)"
      using parseLoop_drop [of k "b1 @ b2" jp st ev] "1.prems" by simp
    ultimately show ?thesis by simp
  next
    case (Some j)
    note j = this
    then have jl: "j < length b1" by (auto simp: firstAnchor_Some_iff dest: anchorAt_lt)
    note ja = firstAnchor_append [OF j, of b2]
    show ?thesis
    proof (cases "findJsonEnd b1 j")
      case None
      with j have "finish (parseLoop jp st b1 k ev) = (ev, drop j b1)"
        by (simp add: parseLoop.simps [of jp st b1 k] finish_simps)
      moreover have "finish (parseLoop jp st (b1 @ b2) k ev) = finish (parseLoop jp st (b1 @ b2) j ev)"
        using ja by (rule parseLoop_skip)
      moreover have "\<dots> = finish (parseLoop jp st (drop j b1 @ b2) 0 ev)"
        using parseLoop_drop [of j "b1 @ b2" jp st ev] jl by simp
      ultimately show ?thesis by simp
    next
      case (Some e)
      note e = this
      note ea = findJsonEnd_append [OF e, of b2]
      from e have el: "e < length b1" by (rule findJsonEnd_lt)
      then have sub: "substring (b1 @ b2) j (Suc e) = substring b1 j (Suc e)"
        by (simp add: substring_append)
      let ?ev = "ev @ tryParse jp st (substring b1 j (Suc e))"
      show ?thesis
      proof (cases "e + 1 \<ge> length b1")
        case True
        with el have len: "length b1 = Suc e" by simp
        from True j e have r1: "finish (parseLoop jp st b1 k ev) = (?ev, [])"
          by (simp add: parseLoop.simps [of jp st b1 k] finish_simps)
        show ?thesis
        proof (cases "b2 = []")
          case True
          with r1 show ?thesis by (simp add: parseLoop_Nil)
        next
          case False
          then have "finish (parseLoop jp st (b1 @ b2) k ev) = finish (parseLoop jp st (b1 @ b2) (Suc e) ?ev)"
            using ja ea sub len by (simp add: parseLoop.simps [of jp st "b1 @ b2" k])
          also have "\<dots> = finish (parseLoop jp st b2 0 ?ev)"
            using parseLoop_shift [of jp st b1 b2 0 ?ev] len by simp
          finally show ?thesis using r1 by simp
        qed
      next
        case False
        then have "finish (parseLoop jp st (b1 @ b2) k ev) = finish (parseLoop jp st (b1 @ b2) (e + 1) ?ev)"
          using ja ea sub by (simp add: parseLoop.simps [of jp st "b1 @ b2" k])
        moreover have "finish (parseLoop jp st b1 k ev) = finish (parseLoop jp st b1 (e + 1) ?ev)"
          using False j e by (simp add: parseLoop.simps [of jp st b1 k])
        moreover have "finish (parseLoop jp st (b1 @ b2) (e + 1) ?ev) =
          (case finish (parseLoop jp st b1 (e + 1) ?ev) of (ev1, r1) \<Rightarrow> finish (parseLoop jp st (r1 @ b2) 0 ev1))"
          using "1.IH" [OF j e] False by simp
        ultimately show ?thesis by simp
      qed
    qed
  qed
qed

lemma parseLoop_acc:
  "finish (parseLoop jp st buffer k ev) =
     (ev @ fst (finish (parseLoop jp st buffer k [])), snd (finish (parseLoop jp st buffer k [])))"
proof -
  have *: "parseLoop jp st buffer k (ev0 @ ev) =
     (case parseLoop jp st buffer k ev of (E, r) \<Rightarrow> (ev0 @ E, r))" for ev0 ev
  proof (induction jp st buffer k ev rule: parseLoop.induct)
    case (1 jp st buffer k ev)
    show ?case
      using "1.IH"
      by (simp add: parseLoop.simps [of jp st buffer k "ev0 @ ev"] parseLoop.simps [of jp st buffer k ev]
          split: option.splits)
  qed
  from * [of ev "[]"] show ?thesis
    by (simp add: finish_def split: prod.splits)
qed



text \<open>
  A complete object of the stream: it opens with one of the five anchors and its braces,
  counted by \<open>findJsonEnd\<close>, close on its last character. It is an event object when the
  classification yields an event.
\<close>

definition startsWithAnchor :: "string \<Rightarrow> bool" where
  "startsWithAnchor s = (\<exists>p\<in>set patterns. prefix p s)"

definition completeObject :: "string \<Rightarrow> bool" where
  "completeObject s = (startsWithAnchor s \<and> findJsonEnd s 0 = Some (length s - 1))"

definition eventObject :: "(string \<Rightarrow> json option) \<Rightarrow> (json \<Rightarrow> string) \<Rightarrow> string \<Rightarrow> bool" where
  "eventObject jsonParse stringify s = (completeObject s \<and> tryParse jsonParse stringify s \<noteq> [])"

text \<open>
  The values of \<^verbatim>\<open>JSON.parse\<close> on a few payloads, and \<^verbatim>\<open>JSON.stringify\<close> on the empty
  object (other values are not reached in the runs below), for running the code on
  concrete inputs.
\<close>

definition sampleJsonParse :: "string \<Rightarrow> json option" where
  \<open>sampleJsonParse = map_of
     [(''{"content":"Hi"}'', JObj [(''content'', JStr ''Hi'')]),
      (''{"contextUsagePercentage":10}'', JObj [(''contextUsagePercentage'', JNum 10)]),
      (''{"content":"done"}'', JObj [(''content'', JStr ''done'')]),
      (''{"stop":true}'', JObj [(''stop'', JBool True)])]\<close>

definition sampleStringify :: "json \<Rightarrow> string" where
  "sampleStringify v = (if v = JObj [] then ''{}'' else ''null'')"

lemma startsWithAnchor_anchorAt: "startsWithAnchor s = anchorAt s 0"
  by (simp add: startsWithAnchor_def anchorAt_def)

lemma firstAnchor_start: "startsWithAnchor s \<Longrightarrow> firstAnchor (s @ rest) 0 = Some 0"
  by (simp add: firstAnchor_Some_iff startsWithAnchor_anchorAt anchorAt_append)

lemma tryParse_length: "length (tryParse jp st s) \<le> 1"
  by (simp add: tryParse_def split: option.splits)

lemma parseLoop_object:
  assumes "completeObject obj"
  shows "finish (parseLoop jp st (obj @ rest) 0 ev) = finish (parseLoop jp st rest 0 (ev @ tryParse jp st obj))"
proof -
  from assms have a: "startsWithAnchor obj" and e: "findJsonEnd obj 0 = Some (length obj - 1)"
    by (auto simp: completeObject_def)
  from a have ne: "obj \<noteq> []"
    using anchorAt_lt [of obj 0] by (auto simp: startsWithAnchor_anchorAt)
  then have len: "Suc (length obj - 1) = length obj" by simp
  note fa = firstAnchor_start [OF a, of rest]
  note fe = findJsonEnd_append [OF e, of rest]
  have sub: "substring (obj @ rest) 0 (length obj) = obj" by (simp add: substring_def)
  show ?thesis
  proof (cases "rest = []")
    case True
    have "finish (parseLoop jp st (obj @ rest) 0 ev) = (ev @ tryParse jp st obj, [])"
      using fa fe sub len True by (simp add: parseLoop.simps [of jp st obj 0] finish_simps)
    with True show ?thesis by (simp add: parseLoop_Nil)
  next
    case False
    then have "finish (parseLoop jp st (obj @ rest) 0 ev) =
        finish (parseLoop jp st (obj @ rest) (length obj) (ev @ tryParse jp st obj))"
      using fa fe sub len by (simp add: parseLoop.simps [of jp st "obj @ rest" 0])
    also have "\<dots> = finish (parseLoop jp st rest 0 (ev @ tryParse jp st obj))"
      using parseLoop_shift [of jp st obj rest 0] by simp
    finally show ?thesis .
  qed
qed

lemma parseLoop_objects:
  "\<forall>obj\<in>set objs. completeObject obj \<Longrightarrow>
   finish (parseLoop jp st (concat objs @ rest) 0 ev) =
     finish (parseLoop jp st rest 0 (ev @ concat (map (tryParse jp st) objs)))"
proof (induction objs arbitrary: ev)
  case Nil
  then show ?case by simp
next
  case (Cons obj objs)
  then show ?case using parseLoop_object [of obj jp st "concat objs @ rest" ev] by simp
qed

lemma length_events:
  "\<forall>obj\<in>set objs. tryParse jp st obj \<noteq> [] \<Longrightarrow> length (concat (map (tryParse jp st) objs)) = length objs"
proof (induction objs)
  case Nil
  then show ?case by simp
next
  case (Cons obj objs)
  moreover have "length (tryParse jp st obj) = 1"
    using tryParse_length [of jp st obj] Cons.prems by (cases "tryParse jp st obj") auto
  ultimately show ?case by simp
qed

lemma parseLoop_incomplete:
  assumes "startsWithAnchor tail" and "findJsonEnd tail 0 = None"
  shows "finish (parseLoop jp st tail 0 ev) = (ev, tail)"
  using firstAnchor_start [OF assms(1), of "[]"] assms(2)
  by (simp add: parseLoop.simps [of jp st tail 0] finish_simps)

text \<open>
  Claim C1. A buffer that is the concatenation of \<open>N\<close> complete event objects, each opening
  with one of the five anchors, parses to exactly \<open>N\<close> events, one per object and in order,
  with an empty remainder; \<open>N = 0\<close> is the empty buffer.
\<close>

theorem parseKiroEvents_complete_objects:
  assumes "\<forall>obj\<in>set objs. eventObject jsonParse stringify obj"
  shows "parseKiroEvents jsonParse stringify (concat objs)
           = (concat (map (tryParse jsonParse stringify) objs), [])
         \<and> length (fst (parseKiroEvents jsonParse stringify (concat objs))) = length objs"
proof -
  from assms have c: "\<forall>obj\<in>set objs. completeObject obj"
    and t: "\<forall>obj\<in>set objs. tryParse jsonParse stringify obj \<noteq> []"
    by (auto simp: eventObject_def)
  have "parseKiroEvents jsonParse stringify (concat objs)
           = (concat (map (tryParse jsonParse stringify) objs), [])"
    using parseLoop_objects [OF c, of jsonParse stringify "[]" "[]"]
    by (simp add: parseKiroEvents_finish parseLoop_Nil)
  with length_events [OF t] show ?thesis by simp
qed

lemma sample_eventObject_content:
  \<open>eventObject sampleJsonParse sampleStringify ''{"content":"Hi"}''\<close>
  by (simp add: eventObject_def completeObject_def startsWithAnchor_def patterns_def findJsonEnd_def
      tryParse_def sampleJsonParse_def)

lemma sample_eventObject_usage:
  \<open>eventObject sampleJsonParse sampleStringify ''{"contextUsagePercentage":10}''\<close>
  by (simp add: eventObject_def completeObject_def startsWithAnchor_def patterns_def findJsonEnd_def
      tryParse_def sampleJsonParse_def)

theorem parseKiroEvents_complete_objects_witness:
  \<open>eventObject sampleJsonParse sampleStringify ''{"content":"Hi"}''
   \<and> eventObject sampleJsonParse sampleStringify ''{"contextUsagePercentage":10}''
   \<and> parseKiroEvents sampleJsonParse sampleStringify
        (concat [''{"content":"Hi"}'', ''{"contextUsagePercentage":10}''])
      = ([Content (JStr ''Hi''), ContextUsage (JNum 10)], [])
   \<and> length (fst (parseKiroEvents sampleJsonParse sampleStringify
        (concat [''{"content":"Hi"}'', ''{"contextUsagePercentage":10}'']))) = 2\<close>
proof -
  have h: \<open>\<forall>obj\<in>set [''{"content":"Hi"}'', ''{"contextUsagePercentage":10}''].
       eventObject sampleJsonParse sampleStringify obj\<close>
    using sample_eventObject_content sample_eventObject_usage by simp
  have t: \<open>concat (map (tryParse sampleJsonParse sampleStringify)
        [''{"content":"Hi"}'', ''{"contextUsagePercentage":10}''])
      = [Content (JStr ''Hi''), ContextUsage (JNum 10)]\<close>
    by (simp add: tryParse_def sampleJsonParse_def)
  from parseKiroEvents_complete_objects [OF h] t
    sample_eventObject_content sample_eventObject_usage
  show ?thesis
    by (simp del: concat.simps set_simps)
qed

text \<open>
  Claim C2. A buffer made of complete event objects followed by an object that opens with an
  anchor and is not closed parses to the events of the complete objects, and the remainder
  is the text from the anchor of the open object on. For every split of a stream into two
  chunks, parsing the first chunk and then the returned remainder followed by the second
  chunk gives the events, and the final remainder, of parsing the whole stream at once.
\<close>

theorem parseKiroEvents_chunks:
  "((\<forall>obj\<in>set objs. eventObject jsonParse stringify obj) \<and> startsWithAnchor tail
      \<and> findJsonEnd tail 0 = None
     \<longrightarrow> parseKiroEvents jsonParse stringify (concat objs @ tail)
           = (concat (map (tryParse jsonParse stringify) objs), tail))
   \<and> fst (parseKiroEvents jsonParse stringify (b1 @ b2))
       = fst (parseKiroEvents jsonParse stringify b1)
         @ fst (parseKiroEvents jsonParse stringify (snd (parseKiroEvents jsonParse stringify b1) @ b2))
   \<and> snd (parseKiroEvents jsonParse stringify (b1 @ b2))
       = snd (parseKiroEvents jsonParse stringify (snd (parseKiroEvents jsonParse stringify b1) @ b2))"
proof (intro conjI impI)
  assume a: "(\<forall>obj\<in>set objs. eventObject jsonParse stringify obj) \<and> startsWithAnchor tail
      \<and> findJsonEnd tail 0 = None"
  then have c: "\<forall>obj\<in>set objs. completeObject obj" by (auto simp: eventObject_def)
  show "parseKiroEvents jsonParse stringify (concat objs @ tail)
           = (concat (map (tryParse jsonParse stringify) objs), tail)"
    using parseLoop_objects [OF c, of jsonParse stringify tail "[]"] a
    by (simp add: parseKiroEvents_finish parseLoop_incomplete)
next
  obtain ev1 r1 where r: "finish (parseLoop jsonParse stringify b1 0 []) = (ev1, r1)"
    by (cases "finish (parseLoop jsonParse stringify b1 0 [])")
  have w: "finish (parseLoop jsonParse stringify (b1 @ b2) 0 []) =
       finish (parseLoop jsonParse stringify (r1 @ b2) 0 ev1)"
    using parseLoop_chunks [of 0 b1 jsonParse stringify b2 "[]"] r by simp
  note acc = parseLoop_acc [of jsonParse stringify "r1 @ b2" 0 ev1]
  show "fst (parseKiroEvents jsonParse stringify (b1 @ b2))
       = fst (parseKiroEvents jsonParse stringify b1)
         @ fst (parseKiroEvents jsonParse stringify (snd (parseKiroEvents jsonParse stringify b1) @ b2))"
    using w r acc by (simp add: parseKiroEvents_finish)
  show "snd (parseKiroEvents jsonParse stringify (b1 @ b2))
       = snd (parseKiroEvents jsonParse stringify (snd (parseKiroEvents jsonParse stringify b1) @ b2))"
    using w r acc by (simp add: parseKiroEvents_finish)
qed

lemma sample_eventObject_done:
  \<open>eventObject sampleJsonParse sampleStringify ''{"content":"done"}''\<close>
  by (simp add: eventObject_def completeObject_def startsWithAnchor_def patterns_def findJsonEnd_def
      tryParse_def sampleJsonParse_def)

lemma sample_incomplete:
  \<open>startsWithAnchor ''{"content":"incomp'' \<and> findJsonEnd ''{"content":"incomp'' 0 = None\<close>
  by (simp add: startsWithAnchor_def patterns_def findJsonEnd_def)

theorem parseKiroEvents_chunks_witness:
  \<open>eventObject sampleJsonParse sampleStringify ''{"content":"done"}''
   \<and> startsWithAnchor ''{"content":"incomp'' \<and> findJsonEnd ''{"content":"incomp'' 0 = None
   \<and> parseKiroEvents sampleJsonParse sampleStringify (''{"content":"done"}'' @ ''{"content":"incomp'')
       = ([Content (JStr ''done'')], ''{"content":"incomp'')
   \<and> fst (parseKiroEvents sampleJsonParse sampleStringify (''{"content":"do'' @ ''ne"}{"stop":true}''))
       = fst (parseKiroEvents sampleJsonParse sampleStringify ''{"content":"do'')
         @ fst (parseKiroEvents sampleJsonParse sampleStringify
                 (snd (parseKiroEvents sampleJsonParse sampleStringify ''{"content":"do'')
                  @ ''ne"}{"stop":true}''))\<close>
proof -
  have h: \<open>(\<forall>obj\<in>set [''{"content":"done"}'']. eventObject sampleJsonParse sampleStringify obj)
      \<and> startsWithAnchor ''{"content":"incomp'' \<and> findJsonEnd ''{"content":"incomp'' 0 = None\<close>
    using sample_eventObject_done sample_incomplete by simp
  have t: \<open>concat (map (tryParse sampleJsonParse sampleStringify) [''{"content":"done"}''])
      = [Content (JStr ''done'')]\<close>
    by (simp add: tryParse_def sampleJsonParse_def)
  let ?obj = \<open>''{"content":"done"}''\<close>
  let ?tail = \<open>''{"content":"incomp''\<close>
  let ?b1 = \<open>''{"content":"do''\<close>
  let ?b2 = \<open>''ne"}{"stop":true}''\<close>
  note inst = parseKiroEvents_chunks [of "[?obj]" sampleJsonParse sampleStringify ?tail ?b1 ?b2]
  from inst h have 1: \<open>parseKiroEvents sampleJsonParse sampleStringify
       (concat [''{"content":"done"}''] @ ''{"content":"incomp'')
       = (concat (map (tryParse sampleJsonParse sampleStringify) [''{"content":"done"}'']),
          ''{"content":"incomp'')\<close>
    by blast
  have 2: \<open>concat [''{"content":"done"}''] = ''{"content":"done"}''\<close> by simp
  from inst have 3: \<open>fst (parseKiroEvents sampleJsonParse sampleStringify (''{"content":"do'' @ ''ne"}{"stop":true}''))
       = fst (parseKiroEvents sampleJsonParse sampleStringify ''{"content":"do'')
         @ fst (parseKiroEvents sampleJsonParse sampleStringify
                 (snd (parseKiroEvents sampleJsonParse sampleStringify ''{"content":"do'')
                  @ ''ne"}{"stop":true}''))\<close>
    by blast
  from 1 [unfolded t 2] sample_eventObject_done sample_incomplete 3 show ?thesis by blast
qed

lemma sample_chunked_run:
  \<open>parseKiroEvents sampleJsonParse sampleStringify ''{"content":"do'' = ([], ''{"content":"do'')\<close>
  \<open>parseKiroEvents sampleJsonParse sampleStringify (''{"content":"do'' @ ''ne"}{"stop":true}'')
     = ([Content (JStr ''done''), ToolUseStop (JBool True)], [])\<close>
  by code_simp+



section \<open>Output message and event stream\<close>

text \<open>
  The parts of \<^verbatim>\<open>AssistantMessage.content\<close> (a tool call is its id, name and arguments)
  and the events pushed on the \<^verbatim>\<open>AssistantMessageEventStream\<close>. The \<^verbatim>\<open>partial\<close> member of
  an event is a reference to the one output object and is left out.
\<close>

datatype ContentBlock =
    TextContent string
  | ThinkingContent string
  | ToolCallContent json json json

text \<open>
  The output message: its content parts, the usage counters, the completion reason and the
  error text. A usage counter is \<open>None\<close> when the arithmetic of the source is applied to a
  value that is not a number.
\<close>

record AssistantMessage =
  msgContent :: "ContentBlock list"
  usageInput :: "int option"
  usageOutput :: int
  totalTokens :: "int option"
  stopReason :: string
  errorMessage :: "string option"

datatype AssistantMessageEvent =
    stream_start
  | text_start nat
  | text_delta nat string
  | text_end nat string
  | thinking_start nat
  | thinking_delta nat string
  | thinking_end nat string
  | toolcall_start nat
  | toolcall_delta nat string
  | toolcall_end nat ContentBlock
  | stream_done string AssistantMessage
  | stream_error string AssistantMessage

section \<open>Thinking extractor (src/thinking-parser.ts)\<close>

definition THINKING_START_TAG :: string where
  "THINKING_START_TAG = ''<thinking>''"

definition THINKING_END_TAG :: string where
  "THINKING_END_TAG = ''</thinking>''"

text \<open>
  The fields of a \<open>ThinkingTagParser\<close>, with the content list of the output message and the
  events of the stream it was constructed on.
\<close>

record ThinkingTagParser =
  textBuffer :: string
  inThinking :: bool
  thinkingExtracted :: bool
  thinkingBlockIndex :: "nat option"
  textBlockIndex :: "nat option"
  content :: "ContentBlock list"
  stream :: "AssistantMessageEvent list"

definition newParser :: "ContentBlock list \<Rightarrow> AssistantMessageEvent list \<Rightarrow> ThinkingTagParser" where
  "newParser out evs =
     \<lparr>textBuffer = [], inThinking = False, thinkingExtracted = False,
      thinkingBlockIndex = None, textBlockIndex = None, content = out, stream = evs\<rparr>"

text \<open>\<^verbatim>\<open>block.text += text\<close> and \<^verbatim>\<open>block.thinking += thinking\<close> on the block at an index.\<close>

fun appendText :: "string \<Rightarrow> ContentBlock \<Rightarrow> ContentBlock" where
  "appendText t (TextContent x) = TextContent (x @ t)"
| "appendText t b = b"

fun appendThinking :: "string \<Rightarrow> ContentBlock \<Rightarrow> ContentBlock" where
  "appendThinking t (ThinkingContent x) = ThinkingContent (x @ t)"
| "appendThinking t b = b"

fun thinkingOf :: "ContentBlock \<Rightarrow> string" where
  "thinkingOf (ThinkingContent x) = x"
| "thinkingOf b = []"

fun textOf :: "ContentBlock \<Rightarrow> string" where
  "textOf (TextContent x) = x"
| "textOf b = []"

definition emitText :: "string \<Rightarrow> ThinkingTagParser \<Rightarrow> ThinkingTagParser" where
  "emitText text s =
     (let s1 = (case textBlockIndex s of
                  None \<Rightarrow> s\<lparr>textBlockIndex := Some (length (content s)),
                            content := content s @ [TextContent []],
                            stream := stream s @ [text_start (length (content s))]\<rparr>
                | Some i \<Rightarrow> s);
          idx = the (textBlockIndex s1)
      in s1\<lparr>content := (content s1)[idx := appendText text (content s1 ! idx)],
             stream := stream s1 @ [text_delta idx text]\<rparr>)"

definition emitThinking :: "string \<Rightarrow> ThinkingTagParser \<Rightarrow> ThinkingTagParser" where
  "emitThinking thinking s =
     (let s1 = (case thinkingBlockIndex s of
                  None \<Rightarrow> s\<lparr>thinkingBlockIndex := Some (length (content s)),
                            content := content s @ [ThinkingContent []],
                            stream := stream s @ [thinking_start (length (content s))]\<rparr>
                | Some i \<Rightarrow> s);
          idx = the (thinkingBlockIndex s1)
      in s1\<lparr>content := (content s1)[idx := appendThinking thinking (content s1 ! idx)],
             stream := stream s1 @ [thinking_delta idx thinking]\<rparr>)"

definition processBeforeThinking :: "ThinkingTagParser \<Rightarrow> ThinkingTagParser" where
  "processBeforeThinking s =
     (case indexOf (textBuffer s) THINKING_START_TAG 0 of
        Some startPos \<Rightarrow>
          (let s1 = (if startPos > 0 then emitText (take startPos (textBuffer s)) s else s)
           in s1\<lparr>textBuffer := drop (startPos + length THINKING_START_TAG) (textBuffer s1),
                  inThinking := True\<rparr>)
      | None \<Rightarrow>
          (let safeLen = length (textBuffer s) - length THINKING_START_TAG
           in if safeLen > 0
              then (emitText (take safeLen (textBuffer s)) s)\<lparr>textBuffer := drop safeLen (textBuffer s)\<rparr>
              else s))"

definition processInsideThinking :: "ThinkingTagParser \<Rightarrow> ThinkingTagParser" where
  "processInsideThinking s =
     (case indexOf (textBuffer s) THINKING_END_TAG 0 of
        Some endPos \<Rightarrow>
          (let s1 = (if endPos > 0 then emitThinking (take endPos (textBuffer s)) s else s);
               s2 = (case thinkingBlockIndex s1 of
                       Some idx \<Rightarrow> s1\<lparr>stream := stream s1 @ [thinking_end idx (thinkingOf (content s1 ! idx))]\<rparr>
                     | None \<Rightarrow> s1);
               rest = drop (endPos + length THINKING_END_TAG) (textBuffer s2)
           in s2\<lparr>textBuffer := (if prefix ''\<newline>\<newline>'' rest then drop 2 rest else rest),
                  inThinking := False, thinkingExtracted := True\<rparr>)
      | None \<Rightarrow>
          (let safeLen = length (textBuffer s) - length THINKING_END_TAG
           in if safeLen > 0
              then (emitThinking (take safeLen (textBuffer s)) s)\<lparr>textBuffer := drop safeLen (textBuffer s)\<rparr>
              else s))"

definition processAfterThinking :: "ThinkingTagParser \<Rightarrow> ThinkingTagParser" where
  "processAfterThinking s = (emitText (textBuffer s) s)\<lparr>textBuffer := []\<rparr>"

text \<open>The \<^verbatim>\<open>while\<close> loop of \<open>processChunk\<close>; each branch that leaves it is a \<^verbatim>\<open>break\<close>.\<close>

function processLoop :: "ThinkingTagParser \<Rightarrow> ThinkingTagParser" where
  "processLoop s =
     (if textBuffer s = [] then s
      else
        let s1 = (if \<not> inThinking s \<and> \<not> thinkingExtracted s then processBeforeThinking s else s) in
        if \<not> inThinking s \<and> \<not> thinkingExtracted s \<and> textBuffer s1 = [] then s1
        else
          let s2 = (if inThinking s1 then processInsideThinking s1 else s1) in
          if inThinking s1 \<and> textBuffer s2 = [] then s2
          else if thinkingExtracted s2 then processAfterThinking s2
          else if length (textBuffer s2) \<ge> length (textBuffer s) then s2
          else processLoop s2)"
  by pat_completeness auto
termination
  by (relation "measure (\<lambda>s. length (textBuffer s))") auto

declare processLoop.simps [simp del]

definition processChunk :: "string \<Rightarrow> ThinkingTagParser \<Rightarrow> ThinkingTagParser" where
  "processChunk chunk s = processLoop (s\<lparr>textBuffer := textBuffer s @ chunk\<rparr>)"

definition finalize :: "ThinkingTagParser \<Rightarrow> ThinkingTagParser" where
  "finalize s =
     (if textBuffer s = [] then s
      else if inThinking s \<and> thinkingBlockIndex s \<noteq> None then
        (let idx = the (thinkingBlockIndex s);
             blocks = (content s)[idx := appendThinking (textBuffer s) (content s ! idx)]
         in s\<lparr>content := blocks,
              stream := stream s @ [thinking_delta idx (textBuffer s),
                                    thinking_end idx (thinkingOf (blocks ! idx))],
              textBuffer := []\<rparr>)
      else (emitText (textBuffer s) s)\<lparr>textBuffer := []\<rparr>)"

definition getTextBlockIndex :: "ThinkingTagParser \<Rightarrow> nat option" where
  "getTextBlockIndex s = textBlockIndex s"

text \<open>The test harness: a fresh parser, one \<open>processChunk\<close> per chunk, then \<open>finalize\<close>.\<close>

definition run :: "string list \<Rightarrow> ThinkingTagParser" where
  "run chunks = finalize (fold processChunk chunks (newParser [] []))"



text \<open>The content stream of the separator scenario.\<close>

definition sampleStream :: string where
  "sampleStream = ''<thinking>A</thinking>\<newline>\<newline>B''"

lemma indexOf_None_iff:
  assumes "p \<noteq> []"
  shows "indexOf text p k = None \<longleftrightarrow> (\<forall>m\<ge>k. \<not> prefix p (drop m text))"
proof
  assume a: "indexOf text p k = None"
  show "\<forall>m\<ge>k. \<not> prefix p (drop m text)"
  proof (intro allI impI notI)
    fix m assume m: "k \<le> m" "prefix p (drop m text)"
    define j where "j = (LEAST n. k \<le> n \<and> prefix p (drop n text))"
    have "k \<le> j \<and> prefix p (drop j text)"
      unfolding j_def using m by (intro LeastI [of "\<lambda>n. k \<le> n \<and> prefix p (drop n text)" m]) simp
    moreover have "\<forall>n. k \<le> n \<and> n < j \<longrightarrow> \<not> prefix p (drop n text)"
      unfolding j_def using not_less_Least by blast
    ultimately have "indexOf text p k = Some j"
      using indexOf_Some_iff [OF assms] by blast
    with a show False by simp
  qed
next
  assume a: "\<forall>m\<ge>k. \<not> prefix p (drop m text)"
  show "indexOf text p k = None"
  proof (cases "indexOf text p k")
    case (Some j)
    then have "k \<le> j" "prefix p (drop j text)"
      using indexOf_Some_iff [OF assms] by blast+
    with a show ?thesis by blast
  qed simp
qed

lemma indexOf_drop_None:
  assumes "p \<noteq> []" and "indexOf text p 0 = None"
  shows "indexOf (drop n text) p 0 = None"
  using assms by (simp add: indexOf_None_iff)

lemma emitText_fields [simp]:
  "textBuffer (emitText t s) = textBuffer s"
  "inThinking (emitText t s) = inThinking s"
  "thinkingExtracted (emitText t s) = thinkingExtracted s"
  "thinkingBlockIndex (emitText t s) = thinkingBlockIndex s"
  by (simp_all add: emitText_def Let_def split: option.splits)

lemma emitThinking_fields [simp]:
  "textBuffer (emitThinking t s) = textBuffer s"
  "inThinking (emitThinking t s) = inThinking s"
  "thinkingExtracted (emitThinking t s) = thinkingExtracted s"
  "textBlockIndex (emitThinking t s) = textBlockIndex s"
  by (simp_all add: emitThinking_def Let_def split: option.splits)

text \<open>What the two "marker not found" branches do to a parser.\<close>

definition withhold ::
  "nat \<Rightarrow> (string \<Rightarrow> ThinkingTagParser \<Rightarrow> ThinkingTagParser) \<Rightarrow> ThinkingTagParser \<Rightarrow> ThinkingTagParser" where
  "withhold n emit s =
     (let safeLen = length (textBuffer s) - n
      in if safeLen > 0
         then (emit (take safeLen (textBuffer s)) s)\<lparr>textBuffer := drop safeLen (textBuffer s)\<rparr>
         else s)"

lemma processBeforeThinking_None:
  "indexOf (textBuffer s) THINKING_START_TAG 0 = None \<Longrightarrow>
   processBeforeThinking s = withhold (length THINKING_START_TAG) emitText s"
  by (simp add: processBeforeThinking_def withhold_def)

lemma processInsideThinking_None:
  "indexOf (textBuffer s) THINKING_END_TAG 0 = None \<Longrightarrow>
   processInsideThinking s = withhold (length THINKING_END_TAG) emitThinking s"
  by (simp add: processInsideThinking_def withhold_def)

lemma withhold_idem:
  assumes "\<And>t s. textBuffer (emit t s) = textBuffer s"
  shows "length (textBuffer s) \<le> n \<Longrightarrow> withhold n emit s = s"
  by (simp add: withhold_def)

lemma withhold_buffer:
  assumes "\<And>t s. textBuffer (emit t s) = textBuffer s"
  shows "textBuffer (withhold n emit s) = drop (length (textBuffer s) - n) (textBuffer s)"
  by (simp add: withhold_def Let_def)

lemma processLoop_before_None:
  assumes b: "\<not> inThinking s" "\<not> thinkingExtracted s"
    and n: "indexOf (textBuffer s) THINKING_START_TAG 0 = None"
  shows "processLoop s = withhold (length THINKING_START_TAG) emitText s"
proof (cases "textBuffer s = []")
  case True
  then show ?thesis by (simp add: processLoop.simps [of s] withhold_def)
next
  case False
  let ?n = "length THINKING_START_TAG"
  let ?s1 = "withhold ?n emitText s"
  have tag: "THINKING_START_TAG \<noteq> []" by (simp add: THINKING_START_TAG_def)
  have s1: "processBeforeThinking s = ?s1" using n by (rule processBeforeThinking_None)
  have buf1: "textBuffer ?s1 = drop (length (textBuffer s) - ?n) (textBuffer s)"
    by (rule withhold_buffer) simp
  have f1: "\<not> inThinking ?s1" "\<not> thinkingExtracted ?s1"
    using b by (simp_all add: withhold_def Let_def)
  have npos: "0 < ?n" by (simp add: THINKING_START_TAG_def)
  have "length (textBuffer ?s1) = min (length (textBuffer s)) ?n" unfolding buf1 by simp
  moreover from False have "0 < length (textBuffer s)" by simp
  ultimately have "0 < length (textBuffer ?s1)" using npos by (simp del: length_greater_0_conv)
  then have ne1: "textBuffer ?s1 \<noteq> []" by simp
  have step: "processLoop s =
      (if length (textBuffer s) \<le> length (textBuffer ?s1) then ?s1 else processLoop ?s1)"
    using False b s1 f1 ne1 by (subst processLoop.simps) (simp add: Let_def)
  show ?thesis
  proof (cases "length (textBuffer s) \<le> length (textBuffer ?s1)")
    case True
    with step show ?thesis by simp
  next
    case False
    have n1: "indexOf (textBuffer ?s1) THINKING_START_TAG 0 = None"
      unfolding buf1 using tag n by (rule indexOf_drop_None)
    have short: "length (textBuffer ?s1) \<le> ?n" unfolding buf1 by simp
    have again: "withhold ?n emitText ?s1 = ?s1"
      using short by (intro withhold_idem) simp_all
    have "processLoop ?s1 = ?s1"
      using ne1 f1 n1 again short
      by (subst processLoop.simps) (simp add: Let_def processBeforeThinking_None)
    with step False show ?thesis by simp
  qed
qed

lemma processLoop_inside_None:
  assumes b: "inThinking s" "\<not> thinkingExtracted s"
    and n: "indexOf (textBuffer s) THINKING_END_TAG 0 = None"
  shows "processLoop s = withhold (length THINKING_END_TAG) emitThinking s"
proof (cases "textBuffer s = []")
  case True
  then show ?thesis by (simp add: processLoop.simps [of s] withhold_def)
next
  case False
  let ?n = "length THINKING_END_TAG"
  let ?s1 = "withhold ?n emitThinking s"
  have tag: "THINKING_END_TAG \<noteq> []" by (simp add: THINKING_END_TAG_def)
  have s1: "processInsideThinking s = ?s1" using n by (rule processInsideThinking_None)
  have buf1: "textBuffer ?s1 = drop (length (textBuffer s) - ?n) (textBuffer s)"
    by (rule withhold_buffer) simp
  have f1: "inThinking ?s1" "\<not> thinkingExtracted ?s1"
    using b by (simp_all add: withhold_def Let_def)
  have npos: "0 < ?n" by (simp add: THINKING_END_TAG_def)
  have "length (textBuffer ?s1) = min (length (textBuffer s)) ?n" unfolding buf1 by simp
  moreover from False have "0 < length (textBuffer s)" by simp
  ultimately have "0 < length (textBuffer ?s1)" using npos by (simp del: length_greater_0_conv)
  then have ne1: "textBuffer ?s1 \<noteq> []" by simp
  have step: "processLoop s =
      (if length (textBuffer s) \<le> length (textBuffer ?s1) then ?s1 else processLoop ?s1)"
    using False b s1 f1 ne1 by (subst processLoop.simps) (simp add: Let_def)
  show ?thesis
  proof (cases "length (textBuffer s) \<le> length (textBuffer ?s1)")
    case True
    with step show ?thesis by simp
  next
    case False
    have n1: "indexOf (textBuffer ?s1) THINKING_END_TAG 0 = None"
      unfolding buf1 using tag n by (rule indexOf_drop_None)
    have short: "length (textBuffer ?s1) \<le> ?n" unfolding buf1 by simp
    have again: "withhold ?n emitThinking ?s1 = ?s1"
      using short by (intro withhold_idem) simp_all
    have "processLoop ?s1 = ?s1"
      using ne1 f1 n1 again short
      by (subst processLoop.simps) (simp add: Let_def processInsideThinking_None)
    with step False show ?thesis by simp
  qed
qed

text \<open>
  Claim C4, as the code has it. When the buffered text (the old buffer followed by the chunk)
  holds no complete open marker in state BEFORE, \<open>processChunk\<close> withholds its last
  \<open>length THINKING_START_TAG\<close> characters (all of it when it is no longer than the marker)
  and flushes the characters before them, when there are any, as one answer delta; in state
  INSIDE the same holds with the close marker and a thinking delta. The withheld length is
  the marker length, not the marker length minus one.
\<close>

theorem processChunk_marker_not_found:
  "(\<not> inThinking s \<and> \<not> thinkingExtracted s
      \<and> indexOf (textBuffer s @ chunk) THINKING_START_TAG 0 = None
     \<longrightarrow> processChunk chunk s =
           (let buf = textBuffer s @ chunk; safeLen = length buf - length THINKING_START_TAG
            in if safeLen > 0 then (emitText (take safeLen buf) s)\<lparr>textBuffer := drop safeLen buf\<rparr>
               else s\<lparr>textBuffer := buf\<rparr>))
   \<and> (inThinking s' \<and> \<not> thinkingExtracted s'
      \<and> indexOf (textBuffer s' @ chunk') THINKING_END_TAG 0 = None
     \<longrightarrow> processChunk chunk' s' =
           (let buf = textBuffer s' @ chunk'; safeLen = length buf - length THINKING_END_TAG
            in if safeLen > 0 then (emitThinking (take safeLen buf) s')\<lparr>textBuffer := drop safeLen buf\<rparr>
               else s'\<lparr>textBuffer := buf\<rparr>))"
proof (intro conjI impI)
  let ?s = "s\<lparr>textBuffer := textBuffer s @ chunk\<rparr>"
  assume a: "\<not> inThinking s \<and> \<not> thinkingExtracted s
      \<and> indexOf (textBuffer s @ chunk) THINKING_START_TAG 0 = None"
  then have "processLoop ?s = withhold (length THINKING_START_TAG) emitText ?s"
    by (intro processLoop_before_None) simp_all
  then show "processChunk chunk s =
           (let buf = textBuffer s @ chunk; safeLen = length buf - length THINKING_START_TAG
            in if safeLen > 0 then (emitText (take safeLen buf) s)\<lparr>textBuffer := drop safeLen buf\<rparr>
               else s\<lparr>textBuffer := buf\<rparr>)"
    by (simp add: processChunk_def withhold_def Let_def emitText_def split: option.splits)
next
  let ?s = "s'\<lparr>textBuffer := textBuffer s' @ chunk'\<rparr>"
  assume a: "inThinking s' \<and> \<not> thinkingExtracted s'
      \<and> indexOf (textBuffer s' @ chunk') THINKING_END_TAG 0 = None"
  then have "processLoop ?s = withhold (length THINKING_END_TAG) emitThinking ?s"
    by (intro processLoop_inside_None) simp_all
  then show "processChunk chunk' s' =
           (let buf = textBuffer s' @ chunk'; safeLen = length buf - length THINKING_END_TAG
            in if safeLen > 0 then (emitThinking (take safeLen buf) s')\<lparr>textBuffer := drop safeLen buf\<rparr>
               else s'\<lparr>textBuffer := buf\<rparr>)"
    by (simp add: processChunk_def withhold_def Let_def emitThinking_def split: option.splits)
qed

lemma sample_no_marker:
  "indexOf ''abcdefghijkl'' THINKING_START_TAG 0 = None"
  "indexOf ''abcdefghijklmnopq'' THINKING_END_TAG 0 = None"
  by (simp_all add: indexOf_def THINKING_START_TAG_def THINKING_END_TAG_def)

theorem processChunk_marker_not_found_witness:
  "\<not> inThinking (newParser [] []) \<and> \<not> thinkingExtracted (newParser [] [])
   \<and> indexOf (textBuffer (newParser [] []) @ ''abcdefghijkl'') THINKING_START_TAG 0 = None
   \<and> processChunk ''abcdefghijkl'' (newParser [] []) =
       \<lparr>textBuffer = ''cdefghijkl'', inThinking = False, thinkingExtracted = False,
        thinkingBlockIndex = None, textBlockIndex = Some 0, content = [TextContent ''ab''],
        stream = [text_start 0, text_delta 0 ''ab'']\<rparr>
   \<and> inThinking ((newParser [] [])\<lparr>inThinking := True\<rparr>)
   \<and> \<not> thinkingExtracted ((newParser [] [])\<lparr>inThinking := True\<rparr>)
   \<and> indexOf (textBuffer ((newParser [] [])\<lparr>inThinking := True\<rparr>) @ ''abcdefghijklmnopq'')
        THINKING_END_TAG 0 = None
   \<and> processChunk ''abcdefghijklmnopq'' ((newParser [] [])\<lparr>inThinking := True\<rparr>) =
       \<lparr>textBuffer = ''ghijklmnopq'', inThinking = True, thinkingExtracted = False,
        thinkingBlockIndex = Some 0, textBlockIndex = None, content = [ThinkingContent ''abcdef''],
        stream = [thinking_start 0, thinking_delta 0 ''abcdef'']\<rparr>"
  using processChunk_marker_not_found
    [of "newParser [] []" "''abcdefghijkl''" "(newParser [] [])\<lparr>inThinking := True\<rparr>" "''abcdefghijklmnopq''"]
    sample_no_marker
  by (simp add: newParser_def emitText_def emitThinking_def THINKING_START_TAG_def THINKING_END_TAG_def)

text \<open>
  Claim C4 as stated fails: on a fresh parser the 12-character chunk \<open>abcdefghijkl\<close> holds
  no open marker, and the parser withholds its last 10 characters, not its last 9; only
  \<open>ab\<close> is flushed.
\<close>

theorem processChunk_withholds_marker_length:
  "\<not> inThinking (newParser [] []) \<and> \<not> thinkingExtracted (newParser [] [])
   \<and> indexOf ''abcdefghijkl'' THINKING_START_TAG 0 = None
   \<and> textBuffer (processChunk ''abcdefghijkl'' (newParser [] [])) = ''cdefghijkl''
   \<and> textBuffer (processChunk ''abcdefghijkl'' (newParser [] []))
       \<noteq> drop (length ''abcdefghijkl'' - (length THINKING_START_TAG - 1)) ''abcdefghijkl''
   \<and> stream (processChunk ''abcdefghijkl'' (newParser [] [])) = [text_start 0, text_delta 0 ''ab'']"
proof -
  have "processChunk ''abcdefghijkl'' (newParser [] []) =
       \<lparr>textBuffer = ''cdefghijkl'', inThinking = False, thinkingExtracted = False,
        thinkingBlockIndex = None, textBlockIndex = Some 0, content = [TextContent ''ab''],
        stream = [text_start 0, text_delta 0 ''ab'']\<rparr>"
    by code_simp
  then show ?thesis
    using sample_no_marker(1) by (simp add: newParser_def THINKING_START_TAG_def)
qed

text \<open>
  Claim C3. Fed as one chunk the stream gives thinking \<open>A\<close> and answer \<open>B\<close>. Split right after
  the close marker, or between the two line feeds of the separator, the separator is not
  consumed: the answer block holds both line feeds followed by \<open>B\<close>.
\<close>

theorem thinking_separator_across_chunks:
  "content (run [''<thinking>A</thinking>\<newline>\<newline>B'']) = [ThinkingContent ''A'', TextContent ''B'']
   \<and> content (run [''<thinking>A</thinking>'', ''\<newline>\<newline>B''])
       = [ThinkingContent ''A'', TextContent ''\<newline>\<newline>B'']
   \<and> content (run [''<thinking>A</thinking>\<newline>'', ''\<newline>B''])
       = [ThinkingContent ''A'', TextContent ''\<newline>\<newline>B'']"
  by code_simp

text \<open>Every split of the stream into two chunks: only offsets 22 and 23 keep the separator.\<close>

lemma run_all_splits:
  "list_all (\<lambda>k. content (run [take k sampleStream, drop k sampleStream]) =
      [ThinkingContent ''A'', TextContent (if k = 22 \<or> k = 23 then ''\<newline>\<newline>B'' else ''B'')]) [0..<26]"
  by code_simp



section \<open>Wire types (src/transform.ts)\<close>

record KiroImage =
  format :: string
  bytes :: string

record KiroToolUse =
  tu_name :: string
  tu_toolUseId :: string
  tu_input :: json

text \<open>A tool result: the \<open>text\<close> members of its content array, its status and the call id.\<close>

record KiroToolResult =
  tr_content :: "string list"
  tr_status :: string
  tr_toolUseId :: string

record KiroToolSpec =
  ts_name :: string
  ts_description :: string
  ts_inputSchema :: json

record KiroUserInputMessageContext =
  toolResults :: "KiroToolResult list option"
  tools :: "KiroToolSpec list option"

record KiroUserInputMessage =
  uim_content :: string
  uim_modelId :: string
  uim_origin :: string
  uim_images :: "KiroImage list option"
  userInputMessageContext :: "KiroUserInputMessageContext option"

record KiroAssistantResponseMessage =
  arm_content :: string
  toolUses :: "KiroToolUse list option"

record KiroHistoryEntry =
  userInputMessage :: "KiroUserInputMessage option"
  assistantResponseMessage :: "KiroAssistantResponseMessage option"

section \<open>History sanitizer and truncator (src/history.ts)\<close>

text \<open>
  \<^verbatim>\<open>m.assistantResponseMessage?.toolUses\<close> and
  \<^verbatim>\<open>m.userInputMessage?.userInputMessageContext?.toolResults\<close> as conditions: an array is
  truthy, also when empty, so each holds when the member is present.
\<close>

definition hasToolUses :: "KiroHistoryEntry \<Rightarrow> bool" where
  "hasToolUses m =
     (case assistantResponseMessage m of None \<Rightarrow> False | Some a \<Rightarrow> toolUses a \<noteq> None)"

definition hasToolResults :: "KiroHistoryEntry \<Rightarrow> bool" where
  "hasToolResults m =
     (case userInputMessage m of
        None \<Rightarrow> False
      | Some u \<Rightarrow> (case userInputMessageContext u of None \<Rightarrow> False | Some c \<Rightarrow> toolResults c \<noteq> None))"

text \<open>
  The \<^verbatim>\<open>for\<close> loop of \<open>sanitizeHistory\<close> over the entries from position \<open>i\<close> on:
  \<open>history[i + 1]\<close> is the head of the rest. Every entry of the list is an object, so the
  \<^verbatim>\<open>if (!m) continue\<close> guard never fires.
\<close>

fun sanitizeLoop :: "KiroHistoryEntry list \<Rightarrow> KiroHistoryEntry list \<Rightarrow> KiroHistoryEntry list" where
  "sanitizeLoop [] result = result"
| "sanitizeLoop (m # rest) result =
     (if hasToolUses m then
        (if (case rest of [] \<Rightarrow> False | next # _ \<Rightarrow> hasToolResults next)
         then sanitizeLoop rest (result @ [m]) else sanitizeLoop rest result)
      else if hasToolResults m then
        (if result \<noteq> [] \<and> hasToolUses (last result)
         then sanitizeLoop rest (result @ [m]) else sanitizeLoop rest result)
      else sanitizeLoop rest (result @ [m]))"

definition sanitizeHistory :: "KiroHistoryEntry list \<Rightarrow> KiroHistoryEntry list" where
  "sanitizeHistory history =
     (let result = sanitizeLoop history []
      in if result \<noteq> [] \<and> (userInputMessage (hd result) = None \<or> hasToolResults (hd result))
         then [] else result)"

text \<open>The ids of the tool calls an entry declares and of the tool results it carries.\<close>

definition toolUseIds :: "KiroHistoryEntry \<Rightarrow> string list" where
  "toolUseIds entry =
     (case assistantResponseMessage entry of
        None \<Rightarrow> []
      | Some a \<Rightarrow> (case toolUses a of None \<Rightarrow> [] | Some tus \<Rightarrow> map tu_toolUseId tus))"

definition toolResultsOf :: "KiroHistoryEntry \<Rightarrow> KiroToolResult list option" where
  "toolResultsOf entry =
     (case userInputMessage entry of
        None \<Rightarrow> None
      | Some u \<Rightarrow> (case userInputMessageContext u of None \<Rightarrow> None | Some c \<Rightarrow> toolResults c))"

definition syntheticEntry :: "KiroToolResult list \<Rightarrow> KiroHistoryEntry" where
  "syntheticEntry orphaned =
     \<lparr>userInputMessage = None,
      assistantResponseMessage = Some
        \<lparr>arm_content = ''Tool calls were made.'',
         toolUses = Some (map (\<lambda>tr. \<lparr>tu_name = ''unknown_tool'', tu_toolUseId = tr_toolUseId tr,
                                      tu_input = JObj []\<rparr>) orphaned)\<rparr>\<rparr>"

text \<open>
  The second loop of \<open>injectSyntheticToolCalls\<close>, with the set \<open>validIds\<close> and the result
  list as its state.
\<close>

primrec injectLoop ::
  "KiroHistoryEntry list \<Rightarrow> string set \<Rightarrow> KiroHistoryEntry list \<Rightarrow> KiroHistoryEntry list" where
  "injectLoop [] validIds result = result"
| "injectLoop (entry # rest) validIds result =
     (case toolResultsOf entry of
        Some trs \<Rightarrow>
          (let orphaned = filter (\<lambda>tr. tr_toolUseId tr \<notin> validIds) trs
           in if orphaned \<noteq> []
              then injectLoop rest (validIds \<union> set (map tr_toolUseId orphaned))
                     (result @ [syntheticEntry orphaned, entry])
              else injectLoop rest validIds (result @ [entry]))
      | None \<Rightarrow> injectLoop rest validIds (result @ [entry]))"

text \<open>The first loop: the non-empty ids of all tool calls of the history.\<close>

definition validIdsOf :: "KiroHistoryEntry list \<Rightarrow> string set" where
  "validIdsOf history = {tid \<in> set (concat (map toolUseIds history)). tid \<noteq> []}"

definition injectSyntheticToolCalls :: "KiroHistoryEntry list \<Rightarrow> KiroHistoryEntry list" where
  "injectSyntheticToolCalls history = injectLoop history (validIdsOf history) []"

text \<open>The loop body as one decision: is the entry pushed on the result?\<close>

definition retain :: "KiroHistoryEntry \<Rightarrow> KiroHistoryEntry list \<Rightarrow> KiroHistoryEntry list \<Rightarrow> bool" where
  "retain m rest result =
     (if hasToolUses m then (case rest of [] \<Rightarrow> False | next # _ \<Rightarrow> hasToolResults next)
      else if hasToolResults m then result \<noteq> [] \<and> hasToolUses (last result)
      else True)"

lemma sanitizeLoop_Cons:
  "sanitizeLoop (m # rest) result =
     sanitizeLoop rest (if retain m rest result then result @ [m] else result)"
  by (simp add: retain_def)

declare sanitizeLoop.simps(2) [simp del]

lemma length_sanitizeLoop: "length (sanitizeLoop h result) \<le> length h + length result"
proof (induction h arbitrary: result)
  case Nil
  then show ?case by simp
next
  case (Cons m rest)
  show ?case unfolding sanitizeLoop_Cons
    using Cons.IH [of "result @ [m]"] Cons.IH [of result] by (simp split: if_splits)
qed

lemma length_sanitizeHistory: "length (sanitizeHistory h) \<le> length h"
  using length_sanitizeLoop [of h "[]"] by (simp add: sanitizeHistory_def Let_def)

text \<open>
  The size loop of \<open>truncateHistory\<close>; \<open>sizeOf\<close> is the length of the serialized list.
\<close>

function truncateLoop ::
  "(KiroHistoryEntry list \<Rightarrow> nat) \<Rightarrow> int \<Rightarrow> KiroHistoryEntry list \<Rightarrow> KiroHistoryEntry list" where
  "truncateLoop sizeOf limit sanitized =
     (if int (sizeOf sanitized) > limit \<and> length sanitized > 2
      then truncateLoop sizeOf limit
             (sanitizeHistory (dropWhile (\<lambda>e. userInputMessage e = None) (tl sanitized)))
      else sanitized)"
  by pat_completeness auto
termination
proof (relation "measure (\<lambda>(sizeOf, limit, sanitized). length sanitized)")
  show "wf (measure (\<lambda>(sizeOf, limit, sanitized). length sanitized))" by simp
next
  fix sizeOf :: "KiroHistoryEntry list \<Rightarrow> nat" and limit :: int and sanitized :: "KiroHistoryEntry list"
  assume a: "limit < int (sizeOf sanitized) \<and> 2 < length sanitized"
  have "length (sanitizeHistory (dropWhile (\<lambda>e. userInputMessage e = None) (tl sanitized)))
      \<le> length (dropWhile (\<lambda>e. userInputMessage e = None) (tl sanitized))"
    by (rule length_sanitizeHistory)
  also have "\<dots> \<le> length (tl sanitized)" by (rule length_dropWhile_le)
  also have "\<dots> < length sanitized" using a by (cases sanitized) auto
  finally show "((sizeOf, limit, sanitizeHistory (dropWhile (\<lambda>e. userInputMessage e = None) (tl sanitized))),
           sizeOf, limit, sanitized) \<in> measure (\<lambda>(sizeOf, limit, sanitized). length sanitized)"
    by simp
qed

declare truncateLoop.simps [simp del]






definition assistantEntry :: "string \<Rightarrow> KiroToolUse list option \<Rightarrow> KiroHistoryEntry" where
  "assistantEntry text tus =
     \<lparr>userInputMessage = None,
      assistantResponseMessage = Some \<lparr>arm_content = text, toolUses = tus\<rparr>\<rparr>"


















section \<open>Serialized size of a history\<close>

text \<open>
  \<^verbatim>\<open>JSON.stringify(history)\<close> on a list of history entries: the quoting of a string, the
  members of each object (an absent optional member is left out) and the arrays. Values of
  free JSON type (a tool's input and schema) are written by the parameter \<open>stringify\<close>.
\<close>

definition hexDigit :: "nat \<Rightarrow> char" where
  "hexDigit n = ''0123456789abcdef'' ! (n mod 16)"

definition quoteChar :: "char \<Rightarrow> string" where
  "quoteChar c =
     (if c = CHR 0x22 then [CHR 0x5C, CHR 0x22]
      else if c = CHR 0x5C then [CHR 0x5C, CHR 0x5C]
      else if c = CHR 0x08 then [CHR 0x5C, CHR ''b'']
      else if c = CHR 0x0C then [CHR 0x5C, CHR ''f'']
      else if c = CHR 0x0A then [CHR 0x5C, CHR ''n'']
      else if c = CHR 0x0D then [CHR 0x5C, CHR ''r'']
      else if c = CHR 0x09 then [CHR 0x5C, CHR ''t'']
      else if (of_char c :: nat) < 32
        then [CHR 0x5C, CHR ''u'', CHR ''0'', CHR ''0'', hexDigit (of_char c div 16), hexDigit (of_char c)]
      else [c])"

definition quoteJSON :: "string \<Rightarrow> string" where
  "quoteJSON s = [CHR 0x22] @ concat (map quoteChar s) @ [CHR 0x22]"

fun joinWith :: "string \<Rightarrow> string list \<Rightarrow> string" where
  "joinWith sep [] = []"
| "joinWith sep [x] = x"
| "joinWith sep (x # y # ys) = x @ sep @ joinWith sep (y # ys)"

definition jsonArray :: "string list \<Rightarrow> string" where
  "jsonArray items = ''['' @ joinWith '','' items @ '']''"

text \<open>An object from its members; \<open>None\<close> is a member that is absent.\<close>

definition jsonObject :: "(string \<times> string option) list \<Rightarrow> string" where
  "jsonObject members =
     ''{'' @ joinWith '','' (List.map_filter
              (\<lambda>(k, v). case v of None \<Rightarrow> None | Some t \<Rightarrow> Some (quoteJSON k @ '':'' @ t)) members)
      @ ''}''"

definition stringifyImage :: "KiroImage \<Rightarrow> string" where
  "stringifyImage img =
     jsonObject [(''format'', Some (quoteJSON (format img))),
                 (''source'', Some (jsonObject [(''bytes'', Some (quoteJSON (bytes img)))]))]"

definition stringifyToolResult :: "KiroToolResult \<Rightarrow> string" where
  "stringifyToolResult tr =
     jsonObject [(''content'', Some (jsonArray
                    (map (\<lambda>t. jsonObject [(''text'', Some (quoteJSON t))]) (tr_content tr)))),
                 (''status'', Some (quoteJSON (tr_status tr))),
                 (''toolUseId'', Some (quoteJSON (tr_toolUseId tr)))]"

definition stringifyToolSpec :: "(json \<Rightarrow> string) \<Rightarrow> KiroToolSpec \<Rightarrow> string" where
  "stringifyToolSpec stringify spec =
     jsonObject [(''toolSpecification'', Some (jsonObject
        [(''name'', Some (quoteJSON (ts_name spec))),
         (''description'', Some (quoteJSON (ts_description spec))),
         (''inputSchema'', Some (jsonObject [(''json'', Some (stringify (ts_inputSchema spec)))]))]))]"

definition stringifyToolUse :: "(json \<Rightarrow> string) \<Rightarrow> KiroToolUse \<Rightarrow> string" where
  "stringifyToolUse stringify tu =
     jsonObject [(''name'', Some (quoteJSON (tu_name tu))),
                 (''toolUseId'', Some (quoteJSON (tu_toolUseId tu))),
                 (''input'', Some (stringify (tu_input tu)))]"

definition stringifyContext :: "(json \<Rightarrow> string) \<Rightarrow> KiroUserInputMessageContext \<Rightarrow> string" where
  "stringifyContext stringify c =
     jsonObject [(''toolResults'', map_option (\<lambda>trs. jsonArray (map stringifyToolResult trs)) (toolResults c)),
                 (''tools'', map_option (\<lambda>ts. jsonArray (map (stringifyToolSpec stringify) ts)) (tools c))]"

definition stringifyUserInputMessage :: "(json \<Rightarrow> string) \<Rightarrow> KiroUserInputMessage \<Rightarrow> string" where
  "stringifyUserInputMessage stringify u =
     jsonObject [(''content'', Some (quoteJSON (uim_content u))),
                 (''modelId'', Some (quoteJSON (uim_modelId u))),
                 (''origin'', Some (quoteJSON (uim_origin u))),
                 (''images'', map_option (\<lambda>imgs. jsonArray (map stringifyImage imgs)) (uim_images u)),
                 (''userInputMessageContext'',
                    map_option (stringifyContext stringify) (userInputMessageContext u))]"

definition stringifyAssistantResponseMessage ::
  "(json \<Rightarrow> string) \<Rightarrow> KiroAssistantResponseMessage \<Rightarrow> string" where
  "stringifyAssistantResponseMessage stringify a =
     jsonObject [(''content'', Some (quoteJSON (arm_content a))),
                 (''toolUses'', map_option (\<lambda>tus. jsonArray (map (stringifyToolUse stringify) tus)) (toolUses a))]"

definition stringifyEntry :: "(json \<Rightarrow> string) \<Rightarrow> KiroHistoryEntry \<Rightarrow> string" where
  "stringifyEntry stringify e =
     jsonObject [(''userInputMessage'', map_option (stringifyUserInputMessage stringify) (userInputMessage e)),
                 (''assistantResponseMessage'',
                    map_option (stringifyAssistantResponseMessage stringify) (assistantResponseMessage e))]"

definition stringifyHistory :: "(json \<Rightarrow> string) \<Rightarrow> KiroHistoryEntry list \<Rightarrow> string" where
  "stringifyHistory stringify history = jsonArray (map (stringifyEntry stringify) history)"

text \<open>The value of \<open>sanitized\<close> when the size loop of \<open>truncateHistory\<close> is left.\<close>

definition sizeLoop ::
  "(json \<Rightarrow> string) \<Rightarrow> KiroHistoryEntry list \<Rightarrow> int \<Rightarrow> KiroHistoryEntry list" where
  "sizeLoop stringify history limit =
     truncateLoop (\<lambda>h. length (stringifyHistory stringify h)) limit (sanitizeHistory history)"

definition truncateHistory ::
  "(json \<Rightarrow> string) \<Rightarrow> KiroHistoryEntry list \<Rightarrow> int \<Rightarrow> KiroHistoryEntry list" where
  "truncateHistory stringify history limit =
     injectSyntheticToolCalls (sizeLoop stringify history limit)"





text \<open>
  Scanning a list for the pairing of tool-call and tool-result turns: the flag says that
  the entry before is a tool-call turn, still waiting for its results; \<open>None\<close> is a
  violation.
\<close>

fun scan :: "bool \<Rightarrow> KiroHistoryEntry list \<Rightarrow> bool option" where
  "scan b [] = Some b"
| "scan b (x # xs) =
     (if hasToolUses x then (if b then None else scan True xs)
      else if hasToolResults x then (if b then scan False xs else None)
      else (if b then None else scan False xs))"

definition paired :: "KiroHistoryEntry list \<Rightarrow> bool" where
  "paired xs = (scan False xs = Some False)"






lemma paired_Nil [simp]: "paired []"
  by (simp add: paired_def)
















section \<open>Message transformation (src/transform.ts)\<close>

text \<open>
  The caller's messages. A content part is a text, a thinking text, an image (MIME type and
  data) or a tool call (id, name, arguments); a user or assistant content is a string or
  an array of parts. An assistant message carries its \<open>stopReason\<close>, a tool-result message
  its \<open>toolCallId\<close>, content and \<open>isError\<close>.
\<close>

datatype ContentPart =
    TextPart string
  | ThinkingPart string
  | ImagePart string string
  | ToolCallPart string string json

datatype MessageContent = StringContent string | ArrayContent "ContentPart list"

datatype Message =
    User MessageContent
  | Assistant MessageContent string
  | ToolResult string "ContentPart list" bool

definition TOOL_RESULT_LIMIT :: int where
  "TOOL_RESULT_LIMIT = 250000"

text \<open>
  Strings are modelled over 8-bit characters, none of which lies in the surrogate range, so
  the replacement of \<open>sanitizeSurrogates\<close> never applies.
\<close>

definition sanitizeSurrogates :: "string \<Rightarrow> string" where
  "sanitizeSurrogates text = text"

text \<open>
  \<open>truncate\<close>; the limit is an integral number. \<^verbatim>\<open>substring\<close> clamps its arguments to the
  text, as \<open>take\<close> and \<open>drop\<close> on \<open>nat\<close> do.
\<close>

definition truncate :: "string \<Rightarrow> int \<Rightarrow> string" where
  "truncate text limit =
     (if int (length text) \<le> limit then text
      else let half = limit div 2
           in take (nat half) text @ ''\<newline>... [TRUNCATED] ...\<newline>''
              @ drop (nat (int (length text) - half)) text)"


definition normalizeMessages :: "Message list \<Rightarrow> Message list" where
  "normalizeMessages messages =
     filter (\<lambda>msg. case msg of
                Assistant c reason \<Rightarrow> reason \<noteq> ''error'' \<and> reason \<noteq> ''aborted''
              | _ \<Rightarrow> True) messages"

definition isImagePart :: "ContentPart \<Rightarrow> bool" where
  "isImagePart c = (case c of ImagePart m d \<Rightarrow> True | _ \<Rightarrow> False)"

definition isToolCallPart :: "ContentPart \<Rightarrow> bool" where
  "isToolCallPart c = (case c of ToolCallPart i n a \<Rightarrow> True | _ \<Rightarrow> False)"

definition isToolResult :: "Message \<Rightarrow> bool" where
  "isToolResult msg = (case msg of ToolResult i c e \<Rightarrow> True | _ \<Rightarrow> False)"

fun extractImages :: "Message \<Rightarrow> ContentPart list" where
  "extractImages (ToolResult i c e) = []"
| "extractImages (User (StringContent s)) = []"
| "extractImages (User (ArrayContent ps)) = filter isImagePart ps"
| "extractImages (Assistant (StringContent s) r) = []"
| "extractImages (Assistant (ArrayContent ps) r) = filter isImagePart ps"

definition textOfPart :: "ContentPart \<Rightarrow> string" where
  "textOfPart c = (case c of TextPart t \<Rightarrow> t | _ \<Rightarrow> [])"

definition textOrThinkingOfPart :: "ContentPart \<Rightarrow> string" where
  "textOrThinkingOfPart c = (case c of TextPart t \<Rightarrow> t | ThinkingPart t \<Rightarrow> t | _ \<Rightarrow> [])"

fun getContentText :: "Message \<Rightarrow> string" where
  "getContentText (ToolResult i c e) = concat (map textOfPart c)"
| "getContentText (User (StringContent s)) = s"
| "getContentText (User (ArrayContent ps)) = concat (map textOrThinkingOfPart ps)"
| "getContentText (Assistant (StringContent s) r) = s"
| "getContentText (Assistant (ArrayContent ps) r) = concat (map textOrThinkingOfPart ps)"

text \<open>\<^verbatim>\<open>mimeType.split("/")[1] || "png"\<close>: the text between the first and the second slash.\<close>

definition mimeSubtype :: "string \<Rightarrow> string" where
  "mimeSubtype mimeType =
     (let afterSlash = drop 1 (dropWhile (\<lambda>c. c \<noteq> CHR ''/'') mimeType);
          second = takeWhile (\<lambda>c. c \<noteq> CHR ''/'') afterSlash
      in if second = [] then ''png'' else second)"

definition convertImagesToKiro :: "ContentPart list \<Rightarrow> KiroImage list" where
  "convertImagesToKiro images =
     map (\<lambda>img. case img of
            ImagePart mimeType d \<Rightarrow> \<lparr>format = mimeSubtype mimeType, bytes = d\<rparr>
          | _ \<Rightarrow> \<lparr>format = ''png'', bytes = []\<rparr>) images"

text \<open>
  The loop over the blocks of an assistant message, in \<open>buildHistory\<close> and again in
  \<open>streamKiro\<close>: the content text and the tool uses. String arguments go through
  \<^verbatim>\<open>JSON.parse\<close>, which may throw (\<open>None\<close>).
\<close>

fun assistantBlocks ::
  "(string \<Rightarrow> json option) \<Rightarrow> ContentPart list \<Rightarrow> string \<Rightarrow> KiroToolUse list
     \<Rightarrow> (string \<times> KiroToolUse list) option" where
  "assistantBlocks jsonParse [] armContent armToolUses = Some (armContent, armToolUses)"
| "assistantBlocks jsonParse (TextPart t # bs) armContent armToolUses =
     assistantBlocks jsonParse bs (armContent @ t) armToolUses"
| "assistantBlocks jsonParse (ThinkingPart t # bs) armContent armToolUses =
     assistantBlocks jsonParse bs
       (''<thinking>'' @ t @ ''</thinking>\<newline>\<newline>'' @ armContent) armToolUses"
| "assistantBlocks jsonParse (ToolCallPart callId name arguments # bs) armContent armToolUses =
     (case arguments of
        JStr s \<Rightarrow>
          (case jsonParse s of
             None \<Rightarrow> None
           | Some v \<Rightarrow> assistantBlocks jsonParse bs armContent
                        (armToolUses @ [\<lparr>tu_name = name, tu_toolUseId = callId, tu_input = v\<rparr>]))
      | v \<Rightarrow> assistantBlocks jsonParse bs armContent
               (armToolUses @ [\<lparr>tu_name = name, tu_toolUseId = callId, tu_input = v\<rparr>]))"
| "assistantBlocks jsonParse (ImagePart m d # bs) armContent armToolUses =
     assistantBlocks jsonParse bs armContent armToolUses"

definition kiroToolResult :: "int \<Rightarrow> Message \<Rightarrow> KiroToolResult" where
  "kiroToolResult toolResultLimit m =
     \<lparr>tr_content = [truncate (getContentText m) toolResultLimit],
      tr_status = (case m of ToolResult i c isError \<Rightarrow> if isError then ''error'' else ''success''
                   | _ \<Rightarrow> ''success''),
      tr_toolUseId = (case m of ToolResult toolCallId c e \<Rightarrow> toolCallId | _ \<Rightarrow> [])\<rparr>"

text \<open>\<^verbatim>\<open>history[history.length - 1]?.userInputMessage\<close> as a condition.\<close>

definition lastIsUser :: "KiroHistoryEntry list \<Rightarrow> bool" where
  "lastIsUser history = (history \<noteq> [] \<and> userInputMessage (last history) \<noteq> None)"

definition continueAssistant :: KiroHistoryEntry where
  "continueAssistant =
     \<lparr>userInputMessage = None,
      assistantResponseMessage = Some \<lparr>arm_content = ''Continue'', toolUses = None\<rparr>\<rparr>"

definition truthyString :: "string option \<Rightarrow> bool" where
  "truthyString s = (case s of None \<Rightarrow> False | Some t \<Rightarrow> t \<noteq> [])"

text \<open>
  The loop of \<open>buildHistory\<close> over \<open>historyMessages\<close>, with \<open>history\<close> and \<open>systemPrepended\<close>
  as its state. A run of tool-result messages is consumed in one round.
\<close>

function buildLoop ::
  "(string \<Rightarrow> json option) \<Rightarrow> string \<Rightarrow> string option \<Rightarrow> int \<Rightarrow> Message list
     \<Rightarrow> KiroHistoryEntry list \<Rightarrow> bool \<Rightarrow> (KiroHistoryEntry list \<times> bool) option" where
  "buildLoop jsonParse modelId systemPrompt toolResultLimit [] history systemPrepended =
     Some (history, systemPrepended)"
| "buildLoop jsonParse modelId systemPrompt toolResultLimit (User c # rest) history systemPrepended =
     (let msg = User c;
          prepend = (truthyString systemPrompt \<and> \<not> systemPrepended);
          text = (if prepend then the systemPrompt @ ''\<newline>\<newline>'' @ getContentText msg
                  else getContentText msg);
          images = extractImages msg;
          uim = \<lparr>uim_content = sanitizeSurrogates text, uim_modelId = modelId,
                 uim_origin = ''AI_EDITOR'',
                 uim_images = (if images \<noteq> [] then Some (convertImagesToKiro images) else None),
                 userInputMessageContext = None\<rparr>
      in buildLoop jsonParse modelId systemPrompt toolResultLimit rest
           ((if lastIsUser history then history @ [continueAssistant] else history)
            @ [\<lparr>userInputMessage = Some uim, assistantResponseMessage = None\<rparr>])
           (systemPrepended \<or> prepend))"
| "buildLoop jsonParse modelId systemPrompt toolResultLimit (Assistant c r # rest) history systemPrepended =
     (case assistantBlocks jsonParse (case c of ArrayContent ps \<Rightarrow> ps | StringContent s \<Rightarrow> []) [] [] of
        None \<Rightarrow> None
      | Some (armContent, armToolUses) \<Rightarrow>
          if armContent = [] \<and> armToolUses = []
          then buildLoop jsonParse modelId systemPrompt toolResultLimit rest history systemPrepended
          else buildLoop jsonParse modelId systemPrompt toolResultLimit rest
                 (history @ [\<lparr>userInputMessage = None,
                               assistantResponseMessage = Some
                                 \<lparr>arm_content = armContent,
                                  toolUses = (if armToolUses \<noteq> [] then Some armToolUses else None)\<rparr>\<rparr>])
                 systemPrepended)"
| "buildLoop jsonParse modelId systemPrompt toolResultLimit (ToolResult i c e # rest) history systemPrepended =
     (let results = map (kiroToolResult toolResultLimit) (ToolResult i c e # takeWhile isToolResult rest)
      in buildLoop jsonParse modelId systemPrompt toolResultLimit (dropWhile isToolResult rest)
           ((if lastIsUser history then history @ [continueAssistant] else history)
            @ [\<lparr>userInputMessage = Some
                  \<lparr>uim_content = ''Tool results provided.'', uim_modelId = modelId,
                   uim_origin = ''AI_EDITOR'', uim_images = None,
                   userInputMessageContext = Some \<lparr>toolResults = Some results, tools = None\<rparr>\<rparr>,
                assistantResponseMessage = None\<rparr>])
           systemPrepended)"
  by pat_completeness auto
termination
  by (relation "measure (\<lambda>(jp, m, sp, l, msgs, h, b). length msgs)")
     (auto simp: length_dropWhile_le le_imp_less_Suc)

text \<open>
  The start of the current messages: back over the trailing tool results, and past an
  assistant message that made no tool call. On the empty list the index is \<open>-1\<close>.
\<close>

fun backOverToolResults :: "Message list \<Rightarrow> nat \<Rightarrow> nat" where
  "backOverToolResults messages 0 = 0"
| "backOverToolResults messages (Suc i) =
     (if isToolResult (messages ! Suc i) then backOverToolResults messages i else Suc i)"

definition hasToolCall :: "Message \<Rightarrow> bool" where
  "hasToolCall msg =
     (case msg of Assistant (ArrayContent ps) r \<Rightarrow> list_ex isToolCallPart ps | _ \<Rightarrow> False)"

definition isAssistant :: "Message \<Rightarrow> bool" where
  "isAssistant msg = (case msg of Assistant c r \<Rightarrow> True | _ \<Rightarrow> False)"

definition currentStart :: "Message list \<Rightarrow> int" where
  "currentStart messages =
     (if messages = [] then - 1
      else let idx = backOverToolResults messages (length messages - 1)
           in if isAssistant (messages ! idx) \<and> \<not> hasToolCall (messages ! idx)
              then int idx + 1 else int idx)"

text \<open>\<^verbatim>\<open>xs.slice(0, n)\<close> and \<^verbatim>\<open>xs.slice(n)\<close>; a negative index counts from the end.\<close>

definition sliceTo :: "'a list \<Rightarrow> int \<Rightarrow> 'a list" where
  "sliceTo xs n = (if n < 0 then take (length xs - nat (- n)) xs else take (nat n) xs)"

definition sliceFrom :: "'a list \<Rightarrow> int \<Rightarrow> 'a list" where
  "sliceFrom xs n = (if n < 0 then drop (length xs - nat (- n)) xs else drop (nat n) xs)"

text \<open>
  \<open>buildHistory\<close>; the reduction factor is an exact rational. \<open>None\<close> is the exception of
  \<^verbatim>\<open>JSON.parse\<close> on a tool call's string arguments.
\<close>

definition buildHistory ::
  "(string \<Rightarrow> json option) \<Rightarrow> Message list \<Rightarrow> string \<Rightarrow> string option \<Rightarrow> rat
     \<Rightarrow> (KiroHistoryEntry list \<times> bool \<times> int) option" where
  "buildHistory jsonParse messages modelId systemPrompt reductionFactor =
     (let toolResultLimit = \<lfloor>of_int TOOL_RESULT_LIMIT * reductionFactor\<rfloor>;
          currentMsgStartIdx = currentStart messages;
          historyMessages = sliceTo messages currentMsgStartIdx
      in case buildLoop jsonParse modelId systemPrompt toolResultLimit historyMessages [] False of
           None \<Rightarrow> None
         | Some (history, systemPrepended) \<Rightarrow> Some (history, systemPrepended, currentMsgStartIdx))"

definition textMessage :: "string \<Rightarrow> Message" where
  "textMessage t = Assistant (ArrayContent [TextPart t]) ''stop''"


definition isUserTurn :: "KiroHistoryEntry \<Rightarrow> bool" where
  "isUserTurn e = (userInputMessage e \<noteq> None)"

definition isAssistantTurn :: "KiroHistoryEntry \<Rightarrow> bool" where
  "isAssistantTurn e = (assistantResponseMessage e \<noteq> None)"

text \<open>No two adjacent entries are on the same side; no two adjacent entries are user turns.\<close>

fun alternates :: "KiroHistoryEntry list \<Rightarrow> bool" where
  "alternates (x # y # zs) =
     (\<not> (isUserTurn x \<and> isUserTurn y) \<and> \<not> (isAssistantTurn x \<and> isAssistantTurn y)
      \<and> alternates (y # zs))"
| "alternates xs = True"

fun noAdjacentUsers :: "KiroHistoryEntry list \<Rightarrow> bool" where
  "noAdjacentUsers (x # y # zs) = (\<not> (isUserTurn x \<and> isUserTurn y) \<and> noAdjacentUsers (y # zs))"
| "noAdjacentUsers xs = True"

text \<open>A user message, two assistant messages in a row, and the current user message.\<close>

definition twoAssistants :: "Message list" where
  "twoAssistants =
     [User (StringContent ''a''), textMessage ''b'', textMessage ''c'', User (StringContent ''d'')]"

lemma noAdjacentUsers_snoc:
  "noAdjacentUsers (h @ [e]) \<longleftrightarrow> noAdjacentUsers h \<and> \<not> (lastIsUser h \<and> isUserTurn e)"
  by (induction h rule: noAdjacentUsers.induct)
    (simp_all add: lastIsUser_def isUserTurn_def)

lemma lastIsUser_continue [simp]: "\<not> lastIsUser (h @ [continueAssistant])"
  by (simp add: lastIsUser_def continueAssistant_def)

lemma isUserTurn_continue [simp]: "\<not> isUserTurn continueAssistant"
  by (simp add: isUserTurn_def continueAssistant_def)

text \<open>The separator is inserted before every user turn that would follow a user turn.\<close>

lemma noAdjacentUsers_push:
  "noAdjacentUsers history \<Longrightarrow>
   noAdjacentUsers ((if lastIsUser history then history @ [continueAssistant] else history) @ [e])"
  by (simp add: noAdjacentUsers_snoc)

lemma buildLoop_noAdjacentUsers:
  "buildLoop jp modelId sp trl msgs history b = Some (h, b') \<Longrightarrow> noAdjacentUsers history
   \<Longrightarrow> noAdjacentUsers h"
proof (induction msgs arbitrary: history b h b' rule: length_induct)
  case (1 msgs)
  note IH = "1.IH" [rule_format]
  show ?case
  proof (cases msgs)
    case Nil
    with "1.prems" show ?thesis by simp
  next
    case (Cons m rest)
    show ?thesis
    proof (cases m)
      case (User c)
      from "1.prems"(1) obtain e b1 where
        "buildLoop jp modelId sp trl rest
           ((if lastIsUser history then history @ [continueAssistant] else history) @ [e]) b1 = Some (h, b')"
        unfolding Cons User by (simp add: Let_def)
      moreover have "length rest < length msgs" using Cons by simp
      ultimately show ?thesis
        using IH noAdjacentUsers_push [OF "1.prems"(2)] by blast
    next
      case (Assistant c r)
      show ?thesis
      proof (cases "assistantBlocks jp (case c of ArrayContent ps \<Rightarrow> ps | StringContent s \<Rightarrow> []) [] []")
        case None
        with "1.prems"(1) show ?thesis unfolding Cons Assistant by simp
      next
        case (Some p)
        obtain armContent armToolUses where p: "p = (armContent, armToolUses)" by (cases p)
        have len: "length rest < length msgs" using Cons by simp
        show ?thesis
        proof (cases "armContent = [] \<and> armToolUses = []")
          case True
          with "1.prems"(1) Some p have "buildLoop jp modelId sp trl rest history b = Some (h, b')"
            unfolding Cons Assistant by simp
          with len IH "1.prems"(2) show ?thesis by blast
        next
          case False
          let ?e = "\<lparr>userInputMessage = None,
                assistantResponseMessage = Some
                  \<lparr>arm_content = armContent,
                   toolUses = (if armToolUses \<noteq> [] then Some armToolUses else None)\<rparr>\<rparr>"
          have "noAdjacentUsers (history @ [?e])"
            using "1.prems"(2) by (simp add: noAdjacentUsers_snoc isUserTurn_def)
          moreover have "buildLoop jp modelId sp trl rest (history @ [?e]) b = Some (h, b')"
            using "1.prems"(1) Some p False unfolding Cons Assistant by auto
          ultimately show ?thesis using len IH by blast
        qed
      qed
    next
      case (ToolResult i c e)
      from "1.prems"(1) obtain en where
        "buildLoop jp modelId sp trl (dropWhile isToolResult rest)
           ((if lastIsUser history then history @ [continueAssistant] else history) @ [en]) b = Some (h, b')"
        unfolding Cons ToolResult by (simp add: Let_def)
      moreover have "length (dropWhile isToolResult rest) < length msgs"
        using Cons length_dropWhile_le [of isToolResult rest] by simp
      ultimately show ?thesis
        using IH noAdjacentUsers_push [OF "1.prems"(2)] by blast
    qed
  qed
qed

lemma buildHistory_noAdjacentUsers:
  "buildHistory jp messages modelId sp r = Some (h, b, idx) \<Longrightarrow> noAdjacentUsers h"
  by (auto simp: buildHistory_def Let_def split: option.splits dest: buildLoop_noAdjacentUsers)

text \<open>
  Claim C8. For a user message, two assistant messages in a row and the current user
  message, \<open>buildHistory\<close> produces a user turn followed by two assistant turns with no
  separator between them: the result does not alternate. (A separator is inserted only
  before a user turn that follows a user turn, \<open>buildHistory_noAdjacentUsers\<close>.)
\<close>

theorem buildHistory_adjacent_assistants:
  "buildHistory sampleJsonParse twoAssistants ''M'' None 1 =
     Some ([\<lparr>userInputMessage = Some \<lparr>uim_content = ''a'', uim_modelId = ''M'',
                uim_origin = ''AI_EDITOR'', uim_images = None, userInputMessageContext = None\<rparr>,
             assistantResponseMessage = None\<rparr>,
            assistantEntry ''b'' None, assistantEntry ''c'' None], False, 3)
   \<and> \<not> alternates [\<lparr>userInputMessage = Some \<lparr>uim_content = ''a'', uim_modelId = ''M'',
                uim_origin = ''AI_EDITOR'', uim_images = None, userInputMessageContext = None\<rparr>,
             assistantResponseMessage = None\<rparr>,
            assistantEntry ''b'' None, assistantEntry ''c'' None]
   \<and> isAssistantTurn (assistantEntry ''b'' None) \<and> isAssistantTurn (assistantEntry ''c'' None)"
  by code_simp



section \<open>Tool catalog reconciliation (src/history.ts)\<close>

definition HISTORY_LIMIT :: int where
  "HISTORY_LIMIT = 850000"

text \<open>The elements of a list in the order of their first occurrence, as a \<^verbatim>\<open>Set\<close> keeps them.\<close>

definition firstOccurrences :: "string list \<Rightarrow> string list" where
  "firstOccurrences xs = rev (remdups (rev xs))"

definition toolUseNames :: "KiroHistoryEntry \<Rightarrow> string list" where
  "toolUseNames entry =
     (case assistantResponseMessage entry of
        None \<Rightarrow> []
      | Some a \<Rightarrow> (case toolUses a of None \<Rightarrow> [] | Some tus \<Rightarrow> map tu_name tus))"

definition extractToolNamesFromHistory :: "KiroHistoryEntry list \<Rightarrow> string list" where
  "extractToolNamesFromHistory history =
     firstOccurrences (filter (\<lambda>n. n \<noteq> []) (concat (map toolUseNames history)))"

definition placeholderTool :: "string \<Rightarrow> KiroToolSpec" where
  "placeholderTool name =
     \<lparr>ts_name = name, ts_description = ''Tool'',
      ts_inputSchema = JObj [(''type'', JStr ''object''), (''properties'', JObj [])]\<rparr>"

definition addPlaceholderTools :: "KiroToolSpec list \<Rightarrow> KiroHistoryEntry list \<Rightarrow> KiroToolSpec list" where
  "addPlaceholderTools specs history =
     (let historyNames = extractToolNamesFromHistory history
      in if historyNames = [] then specs
         else let existing = set (filter (\<lambda>n. n \<noteq> []) (map ts_name specs));
                  missing = filter (\<lambda>n. n \<notin> existing) historyNames
              in if missing = [] then specs else specs @ map placeholderTool missing)"

section \<open>Request orchestrator (src/stream.ts)\<close>

record Tool =
  tool_name :: string
  tool_description :: string
  tool_parameters :: json

record Model =
  model_id :: string
  model_reasoning :: bool
  contextWindow :: int

record Context =
  ctx_systemPrompt :: "string option"
  ctx_messages :: "Message list"
  ctx_tools :: "Tool list option"

text \<open>
  The options: the access token, the reasoning level, and whether the cancellation signal
  is set when the \<^verbatim>\<open>catch\<close> block reads it.
\<close>

record SimpleStreamOptions =
  apiKey :: "string option"
  opt_reasoning :: "string option"
  signalAborted :: bool

record KiroRequest =
  currentMessage :: KiroUserInputMessage
  req_history :: "KiroHistoryEntry list option"

text \<open>
  What a call of \<^verbatim>\<open>fetch\<close> gives: a rejection with its message; a response that is not
  \<open>ok\<close>, with status, status text and the body text (empty when reading it fails); or an
  \<open>ok\<close> response, whose body is absent or delivers decoded chunks and then ends or fails
  with a message.
\<close>

datatype ResponseBody = NoBody | Chunks "string list" "string option"

datatype FetchResult =
    FetchError string
  | HttpError nat string string
  | HttpOk ResponseBody

text \<open>
  The runtime and the collaborators of a turn: \<^verbatim>\<open>JSON.parse\<close> (\<open>None\<close> when it throws, with
  one message standing for its \<^verbatim>\<open>SyntaxError\<close>), \<^verbatim>\<open>JSON.stringify\<close>, \<^verbatim>\<open>String(v)\<close> for a
  value that is not a string, the model-id translation of \<^verbatim>\<open>models.ts\<close> (\<open>None\<close> when it
  throws), and the transport: the result of the \<open>n\<close>-th call of \<^verbatim>\<open>fetch\<close> on a request.
\<close>

record Runtime =
  rt_jsonParse :: "string \<Rightarrow> json option"
  rt_syntaxError :: string
  rt_stringify :: "json \<Rightarrow> string"
  rt_toString :: "json \<Rightarrow> string"
  rt_resolveKiroModel :: "string \<Rightarrow> string option"
  rt_fetch :: "nat \<Rightarrow> KiroRequest \<Rightarrow> FetchResult"

definition convertToolsToKiro :: "Tool list \<Rightarrow> KiroToolSpec list" where
  "convertToolsToKiro ts =
     map (\<lambda>t. \<lparr>ts_name = tool_name t, ts_description = tool_description t,
                ts_inputSchema = tool_parameters t\<rparr>) ts"

text \<open>The system prompt of one attempt, clipped when the reduction factor is below one.\<close>

definition effectiveSystemPrompt :: "string \<Rightarrow> rat \<Rightarrow> string" where
  "effectiveSystemPrompt systemPrompt reductionFactor =
     (if reductionFactor < 1 then
        (let maxSystemLength = \<lfloor>5000 * reductionFactor\<rfloor>
         in if int (length systemPrompt) > maxSystemLength
            then take (nat maxSystemLength) systemPrompt @ ''\<newline>[System prompt truncated due to length]''
            else systemPrompt)
      else systemPrompt)"

definition continueUser :: "string \<Rightarrow> KiroHistoryEntry" where
  "continueUser modelId =
     \<lparr>userInputMessage = Some
        \<lparr>uim_content = ''Continue'', uim_modelId = modelId, uim_origin = ''AI_EDITOR'',
         uim_images = None, userInputMessageContext = None\<rparr>,
      assistantResponseMessage = None\<rparr>"

text \<open>
  The body of the retry loop up to the request (the lines from \<open>effectiveSystemPrompt\<close> to
  \<open>request\<close>), from the normalized messages. The random conversation id is left out.
\<close>

definition buildRequestFrom ::
  "Runtime \<Rightarrow> string \<Rightarrow> string \<Rightarrow> Tool list option \<Rightarrow> rat \<Rightarrow> Message list \<Rightarrow> KiroRequest option" where
  "buildRequestFrom rt kiroModelId systemPrompt ctxTools reductionFactor normalized =
     (let esp = effectiveSystemPrompt systemPrompt reductionFactor
      in case buildHistory (rt_jsonParse rt) normalized kiroModelId (Some esp) reductionFactor of
        None \<Rightarrow> None
      | Some (rawHistory, systemPrepended, currentMsgStartIdx) \<Rightarrow>
          (let history0 = truncateHistory (rt_stringify rt) rawHistory \<lfloor>of_int HISTORY_LIMIT * reductionFactor\<rfloor>;
               toolResultLimit = \<lfloor>of_int TOOL_RESULT_LIMIT * reductionFactor\<rfloor>;
               currentMessages = sliceFrom normalized currentMsgStartIdx;
               results = (\<lambda>ms. map (kiroToolResult toolResultLimit) (filter isToolResult ms))
           in case
                (case currentMessages of
                   Assistant c r # others \<Rightarrow>
                     (case assistantBlocks (rt_jsonParse rt)
                             (case c of ArrayContent ps \<Rightarrow> ps | StringContent s \<Rightarrow> []) [] [] of
                        None \<Rightarrow> None
                      | Some (armContent, armToolUses) \<Rightarrow>
                          Some ((if armContent \<noteq> [] \<or> armToolUses \<noteq> []
                                 then (if history0 \<noteq> [] \<and> userInputMessage (last history0) = None
                                       then history0 @ [continueUser kiroModelId] else history0)
                                      @ [\<lparr>userInputMessage = None,
                                          assistantResponseMessage = Some
                                            \<lparr>arm_content = armContent,
                                             toolUses = (if armToolUses \<noteq> [] then Some armToolUses else None)\<rparr>\<rparr>]
                                 else history0),
                                results others,
                                (if results others \<noteq> [] then ''Tool results provided.'' else ''Continue'')))
                 | ToolResult i c e # others \<Rightarrow>
                     Some (history0, results currentMessages, ''Tool results provided.'')
                 | User c # others \<Rightarrow>
                     Some (history0, [],
                           (if esp \<noteq> [] \<and> \<not> systemPrepended
                            then esp @ ''\<newline>\<newline>'' @ getContentText (User c)
                            else getContentText (User c)))
                 | [] \<Rightarrow> Some (history0, [], []))
              of
                None \<Rightarrow> None
              | Some (history1, currentToolResults, currentContent) \<Rightarrow>
                  (let hasTools = (case ctxTools of None \<Rightarrow> False | Some ts \<Rightarrow> ts \<noteq> []);
                       uimc =
                         (if currentToolResults \<noteq> [] \<or> hasTools then
                            Some \<lparr>toolResults = (if currentToolResults \<noteq> [] then Some currentToolResults else None),
                                  tools =
                                    (if hasTools then
                                       (let kt0 = convertToolsToKiro (the ctxTools);
                                            kt1 = (if history1 \<noteq> [] then addPlaceholderTools kt0 history1 else kt0)
                                        in Some (if reductionFactor < 1
                                                 then take (nat (max 3 \<lfloor>of_nat (length kt1) * reductionFactor\<rfloor>)) kt1
                                                 else kt1))
                                     else None)\<rparr>
                          else None);
                       currentImages =
                         (case currentMessages of
                            User c # others \<Rightarrow>
                              (let imgs = extractImages (User c)
                               in if imgs \<noteq> [] then Some (convertImagesToKiro imgs) else None)
                          | _ \<Rightarrow> None);
                       history2 = (if history1 \<noteq> [] \<and> userInputMessage (last history1) \<noteq> None
                                   then history1 @ [continueAssistant] else history1)
                   in Some \<lparr>currentMessage =
                              \<lparr>uim_content = sanitizeSurrogates currentContent, uim_modelId = kiroModelId,
                               uim_origin = ''AI_EDITOR'', uim_images = currentImages,
                               userInputMessageContext = uimc\<rparr>,
                            req_history = (if history2 \<noteq> [] then Some history2 else None)\<rparr>)))"

definition buildRequest ::
  "Runtime \<Rightarrow> string \<Rightarrow> string \<Rightarrow> Context \<Rightarrow> rat \<Rightarrow> KiroRequest option" where
  "buildRequest rt kiroModelId systemPrompt context reductionFactor =
     buildRequestFrom rt kiroModelId systemPrompt (ctx_tools context) reductionFactor
       (normalizeMessages (ctx_messages context))"


subsection \<open>Reading the response\<close>

record KiroToolCallState =
  tc_toolUseId :: json
  tc_name :: json
  tc_input :: string

text \<open>
  The state of one read of a response. The parser record carries \<^verbatim>\<open>output.content\<close> and
  the pushed events also when no \<open>ThinkingTagParser\<close> exists (\<open>sk_thinking\<close> false); the
  other members are the local variables of \<open>streamKiro\<close> and \<^verbatim>\<open>output.usage.input\<close>.
\<close>

record StreamState =
  sk_parser :: ThinkingTagParser
  sk_thinking :: bool
  sk_usageInput :: "int option"
  sk_buffer :: string
  sk_totalContent :: string
  sk_textBlockIndex :: "nat option"
  sk_toolCalls :: "KiroToolCallState list"
  sk_currentToolCall :: "KiroToolCallState option"
  sk_streamComplete :: bool

text \<open>
  A member typed \<open>string\<close> read as text: a string is itself, any other value what the
  runtime's \<^verbatim>\<open>String(v)\<close> makes of it.
\<close>

definition jsText :: "Runtime \<Rightarrow> json \<Rightarrow> string" where
  "jsText rt v = (case v of JStr s \<Rightarrow> s | _ \<Rightarrow> rt_toString rt v)"

text \<open>
  \<^verbatim>\<open>Math.round((pct / 100) * model.contextWindow)\<close> in exact arithmetic, for a percentage
  that is a number; \<open>None\<close> for a value that is not a number.
\<close>

definition inputTokens :: "json \<Rightarrow> int \<Rightarrow> int option" where
  "inputTokens pct window =
     (case pct of JNum q \<Rightarrow> Some (round (q / 100 * of_int window)) | _ \<Rightarrow> None)"

text \<open>\<^verbatim>\<open>Math.ceil(totalContent.length / 4)\<close>.\<close>

definition outputTokens :: "string \<Rightarrow> int" where
  "outputTokens totalContent = \<lceil>(of_nat (length totalContent) :: rat) / 4\<rceil>"

definition closeToolCall :: "StreamState \<Rightarrow> StreamState" where
  "closeToolCall s =
     (case sk_currentToolCall s of
        None \<Rightarrow> s
      | Some c \<Rightarrow> s\<lparr>sk_toolCalls := sk_toolCalls s @ [c], sk_currentToolCall := None\<rparr>)"

fun processEvent :: "Runtime \<Rightarrow> Model \<Rightarrow> KiroStreamEvent \<Rightarrow> StreamState \<Rightarrow> StreamState" where
  "processEvent rt model (ContextUsage pct) s =
     s\<lparr>sk_usageInput := inputTokens pct (contextWindow model), sk_streamComplete := True\<rparr>"
| "processEvent rt model (Content d) s =
     (let s1 = s\<lparr>sk_totalContent := sk_totalContent s @ jsText rt d\<rparr>
      in if sk_thinking s1 then s1\<lparr>sk_parser := processChunk (jsText rt d) (sk_parser s1)\<rparr>
         else
           (let p = sk_parser s1;
                idx = (case sk_textBlockIndex s1 of None \<Rightarrow> length (content p) | Some i \<Rightarrow> i);
                p1 = (case sk_textBlockIndex s1 of
                        None \<Rightarrow> p\<lparr>content := content p @ [TextContent []],
                                  stream := stream p @ [text_start idx]\<rparr>
                      | Some i \<Rightarrow> p)
            in s1\<lparr>sk_textBlockIndex := Some idx,
                   sk_parser := p1\<lparr>content := (content p1)[idx := appendText (jsText rt d) (content p1 ! idx)],
                                    stream := stream p1 @ [text_delta idx (jsText rt d)]\<rparr>\<rparr>))"
| "processEvent rt model (ToolUse name toolUseId inp stop) s =
     (let fresh = \<lparr>tc_toolUseId = toolUseId, tc_name = name, tc_input = inp\<rparr>;
          s1 = (case sk_currentToolCall s of
                  Some c \<Rightarrow>
                    if tc_toolUseId c = toolUseId
                    then s\<lparr>sk_currentToolCall := Some (c\<lparr>tc_input := tc_input c @ inp\<rparr>)\<rparr>
                    else s\<lparr>sk_toolCalls := sk_toolCalls s @ [c], sk_currentToolCall := Some fresh\<rparr>
                | None \<Rightarrow> s\<lparr>sk_currentToolCall := Some fresh\<rparr>)
      in if (case stop of None \<Rightarrow> False | Some v \<Rightarrow> truthy v) then closeToolCall s1 else s1)"
| "processEvent rt model (ToolUseInput inp) s =
     (case sk_currentToolCall s of
        None \<Rightarrow> s
      | Some c \<Rightarrow> s\<lparr>sk_currentToolCall := Some (c\<lparr>tc_input := tc_input c @ inp\<rparr>)\<rparr>)"
| "processEvent rt model (ToolUseStop stop) s =
     (if truthy stop then closeToolCall s else s)"

text \<open>The \<^verbatim>\<open>for\<close> loop over the events of one read, and the read loop over the chunks.\<close>

definition processEvents :: "Runtime \<Rightarrow> Model \<Rightarrow> KiroStreamEvent list \<Rightarrow> StreamState \<Rightarrow> StreamState" where
  "processEvents rt model evs s = fold (processEvent rt model) evs s"

fun readLoop :: "Runtime \<Rightarrow> Model \<Rightarrow> string list \<Rightarrow> StreamState \<Rightarrow> StreamState" where
  "readLoop rt model [] s = s"
| "readLoop rt model (chunk # rest) s =
     (let parsed = parseKiroEvents (rt_jsonParse rt) (rt_stringify rt) (sk_buffer s @ chunk);
          s1 = processEvents rt model (fst parsed)
                 (s\<lparr>sk_buffer := snd parsed, sk_streamComplete := False\<rparr>)
      in if sk_streamComplete s1 then s1 else readLoop rt model rest s1)"

definition initialState :: "bool \<Rightarrow> StreamState" where
  "initialState thinkingEnabled =
     \<lparr>sk_parser = newParser [] [stream_start], sk_thinking = thinkingEnabled,
      sk_usageInput = Some 0, sk_buffer = [], sk_totalContent = [], sk_textBlockIndex = None,
      sk_toolCalls = [], sk_currentToolCall = None, sk_streamComplete = False\<rparr>"

text \<open>The loop over the completed tool calls: content parts and events.\<close>

fun emitToolCalls ::
  "Runtime \<Rightarrow> KiroToolCallState list \<Rightarrow> ContentBlock list \<Rightarrow> AssistantMessageEvent list
     \<Rightarrow> ContentBlock list \<times> AssistantMessageEvent list" where
  "emitToolCalls rt [] blocks evs = (blocks, evs)"
| "emitToolCalls rt (tc # tcs) blocks evs =
     (let idx = length blocks;
          args = (case rt_jsonParse rt (tc_input tc) of None \<Rightarrow> JObj [] | Some v \<Rightarrow> v);
          toolCall = ToolCallContent (tc_toolUseId tc) (tc_name tc) args
      in emitToolCalls rt tcs (blocks @ [toolCall])
           (evs @ [toolcall_start idx, toolcall_delta idx (tc_input tc), toolcall_end idx toolCall]))"

text \<open>
  After the read loop: the last tool call, the parser's \<open>finalize\<close>, the end of the answer
  block, the tool calls, the usage counters and the \<open>done\<close> event. The cost computation
  of the host library is left out.
\<close>

definition assemble :: "Runtime \<Rightarrow> StreamState \<Rightarrow> AssistantMessageEvent list" where
  "assemble rt s =
     (let calls = (case sk_currentToolCall s of None \<Rightarrow> sk_toolCalls s | Some c \<Rightarrow> sk_toolCalls s @ [c]);
          p = (if sk_thinking s then finalize (sk_parser s) else sk_parser s);
          textIdx = (if sk_thinking s then getTextBlockIndex p else sk_textBlockIndex s);
          evs1 = (case textIdx of
                    None \<Rightarrow> stream p
                  | Some i \<Rightarrow> stream p @ [text_end i (textOf (content p ! i))]);
          (blocks, evs2) = emitToolCalls rt calls (content p) evs1;
          outTok = outputTokens (sk_totalContent s);
          reason = (if calls \<noteq> [] then ''toolUse'' else ''stop'');
          output = \<lparr>msgContent = blocks, usageInput = sk_usageInput s, usageOutput = outTok,
                    totalTokens = map_option (\<lambda>i. i + outTok) (sk_usageInput s),
                    stopReason = reason, errorMessage = None\<rparr>
      in evs2 @ [stream_done reason output])"

text \<open>
  The outcome of the \<^verbatim>\<open>try\<close> block: the events pushed when it completes, or the message
  thrown together with the content, the events and the input usage reached by then.
\<close>

datatype TryResult =
    Completed "AssistantMessageEvent list"
  | Thrown string "ContentBlock list" "AssistantMessageEvent list" "int option"

definition handleBody :: "Runtime \<Rightarrow> Model \<Rightarrow> bool \<Rightarrow> ResponseBody \<Rightarrow> TryResult" where
  "handleBody rt model thinkingEnabled body =
     (case body of
        NoBody \<Rightarrow> Thrown ''No response body'' [] [stream_start] (Some 0)
      | Chunks chunks failure \<Rightarrow>
          (let s = readLoop rt model chunks (initialState thinkingEnabled)
           in case failure of
                Some msg \<Rightarrow>
                  if sk_streamComplete s then Completed (assemble rt s)
                  else Thrown msg (content (sk_parser s)) (stream (sk_parser s)) (sk_usageInput s)
              | None \<Rightarrow> Completed (assemble rt s)))"

subsection \<open>The retry loop\<close>

text \<open>\<^verbatim>\<open>text.includes(p)\<close>.\<close>

definition stringIncludes :: "string \<Rightarrow> string \<Rightarrow> bool" where
  "stringIncludes text p = (indexOf text p 0 \<noteq> None)"

definition isTooBig :: "string \<Rightarrow> bool" where
  "isTooBig errText =
     (stringIncludes errText ''CONTENT_LENGTH_EXCEEDS_THRESHOLD''
      \<or> stringIncludes errText ''Input is too long''
      \<or> stringIncludes errText ''Improperly formed'')"

text \<open>The size-rejection class of a response that is not \<open>ok\<close>.\<close>

definition sizeRejection :: "nat \<Rightarrow> string \<Rightarrow> bool" where
  "sizeRejection status errText = (status = 413 \<or> (status = 400 \<and> isTooBig errText))"

definition maxRetries :: nat where
  "maxRetries = 3"

text \<open>A number in a template string.\<close>

function decimal :: "nat \<Rightarrow> string" where
  "decimal n = (if n < 10 then [char_of (48 + n)] else decimal (n div 10) @ [char_of (48 + n mod 10)])"
  by pat_completeness auto
termination
  by (relation "measure id") auto

declare decimal.simps [simp del]

definition apiErrorMessage :: "nat \<Rightarrow> string \<Rightarrow> string \<Rightarrow> string" where
  "apiErrorMessage status statusText errText =
     ''Kiro API error: '' @ decimal status @ '' '' @ statusText @ '' '' @ errText"

text \<open>
  The \<^verbatim>\<open>while (retryCount <= maxRetries)\<close> loop: its result and the requests \<^verbatim>\<open>fetch\<close> was
  called with, in order. The factor is an exact rational.
\<close>

function attemptLoop ::
  "Runtime \<Rightarrow> Model \<Rightarrow> Context \<Rightarrow> string \<Rightarrow> bool \<Rightarrow> string \<Rightarrow> nat \<Rightarrow> rat \<Rightarrow> KiroRequest list
     \<Rightarrow> TryResult \<times> KiroRequest list" where
  "attemptLoop rt model context kiroModelId thinkingEnabled systemPrompt retryCount reductionFactor sent =
     (if retryCount \<le> maxRetries then
        (case buildRequest rt kiroModelId systemPrompt context reductionFactor of
           None \<Rightarrow> (Thrown (rt_syntaxError rt) [] [] (Some 0), sent)
         | Some request \<Rightarrow>
             (case rt_fetch rt (length sent) request of
                FetchError msg \<Rightarrow> (Thrown msg [] [] (Some 0), sent @ [request])
              | HttpError status statusText errText \<Rightarrow>
                  if sizeRejection status errText \<and> retryCount < maxRetries
                  then attemptLoop rt model context kiroModelId thinkingEnabled systemPrompt
                         (retryCount + 1) (reductionFactor * (7 / 10)) (sent @ [request])
                  else (Thrown (apiErrorMessage status statusText errText) [] [] (Some 0),
                        sent @ [request])
              | HttpOk body \<Rightarrow> (handleBody rt model thinkingEnabled body, sent @ [request])))
      else (Completed [], sent))"
  by pat_completeness auto
termination
  by (relation "measure (\<lambda>(rt, model, context, k, t, sp, retryCount, r, sent). maxRetries - retryCount)")
     auto

declare attemptLoop.simps [simp del]

definition thinkingBudget :: "string option \<Rightarrow> nat" where
  "thinkingBudget level =
     (if level = Some ''xhigh'' then 50000 else if level = Some ''high'' then 30000
      else if level = Some ''medium'' then 20000 else 10000)"

text \<open>The events pushed on the stream of a turn and the requests sent.\<close>

record Outcome =
  events :: "AssistantMessageEvent list"
  requests :: "KiroRequest list"

definition catchError :: "SimpleStreamOptions \<Rightarrow> TryResult \<Rightarrow> AssistantMessageEvent list" where
  "catchError options r =
     (case r of
        Completed evs \<Rightarrow> evs
      | Thrown msg blocks evs usage \<Rightarrow>
          (let reason = (if signalAborted options then ''aborted'' else ''error'')
           in evs @ [stream_error reason
                       \<lparr>msgContent = blocks, usageInput = usage, usageOutput = 0, totalTokens = Some 0,
                        stopReason = reason, errorMessage = Some msg\<rparr>]))"

definition streamKiro :: "Runtime \<Rightarrow> Model \<Rightarrow> Context \<Rightarrow> SimpleStreamOptions \<Rightarrow> Outcome" where
  "streamKiro rt model context options =
     (if \<not> truthyString (apiKey options) then
        \<lparr>events = catchError options
           (Thrown ''Kiro credentials not set. Run /login kiro or install kiro-cli.'' [] [] (Some 0)),
         requests = []\<rparr>
      else case rt_resolveKiroModel rt (model_id model) of
        None \<Rightarrow>
          \<lparr>events = catchError options
             (Thrown (''Unknown Kiro model ID: '' @ model_id model) [] [] (Some 0)),
           requests = []\<rparr>
      | Some kiroModelId \<Rightarrow>
          (let thinkingEnabled = (truthyString (opt_reasoning options) \<or> model_reasoning model);
               base = (case ctx_systemPrompt context of None \<Rightarrow> [] | Some p \<Rightarrow> p);
               systemPrompt =
                 (if thinkingEnabled
                  then ''<thinking_mode>enabled</thinking_mode><max_thinking_length>''
                       @ decimal (thinkingBudget (opt_reasoning options)) @ ''</max_thinking_length>''
                       @ (if base \<noteq> [] then ''\<newline>'' @ base else [])
                  else base);
               r = attemptLoop rt model context kiroModelId thinkingEnabled systemPrompt 0 1 []
           in \<lparr>events = catchError options (fst r), requests = snd r\<rparr>))"











lemma streamKiro_unfold:
  assumes "truthyString (apiKey options)" and "rt_resolveKiroModel rt (model_id model) = Some kid"
  shows "streamKiro rt model context options =
     (let th = (truthyString (opt_reasoning options) \<or> model_reasoning model);
          base = (case ctx_systemPrompt context of None \<Rightarrow> [] | Some p \<Rightarrow> p);
          sp = (if th
                  then ''<thinking_mode>enabled</thinking_mode><max_thinking_length>''
                       @ decimal (thinkingBudget (opt_reasoning options)) @ ''</max_thinking_length>''
                       @ (if base \<noteq> [] then ''\<newline>'' @ base else [])
                  else base);
          r = attemptLoop rt model context kid th sp 0 1 []
      in \<lparr>events = catchError options (fst r), requests = snd r\<rparr>)"
  using assms by (simp add: streamKiro_def)











subsection \<open>Usage of a completed turn\<close>






lemma closeToolCall_fields [simp]:
  "sk_totalContent (closeToolCall s) = sk_totalContent s"
  "sk_usageInput (closeToolCall s) = sk_usageInput s"
  "sk_streamComplete (closeToolCall s) = sk_streamComplete s"
  "sk_buffer (closeToolCall s) = sk_buffer s"
  by (simp_all add: closeToolCall_def split: option.splits)
















text \<open>The response to the last request of a turn.\<close>

definition finalResponse :: "Runtime \<Rightarrow> KiroRequest list \<Rightarrow> FetchResult" where
  "finalResponse rt sent = (if sent = [] then FetchError [] else rt_fetch rt (length sent - 1) (last sent))"

lemma finalResponse_snoc [simp]: "finalResponse rt (sent @ [q]) = rt_fetch rt (length sent) q"
  by (simp add: finalResponse_def)











subsection \<open>The messages a request is built from\<close>












end
